theory Spec2Isabelle
  imports Complex_Main
begin

section \<open>Spatial batch normalization gradient (CPU)\<close>

text \<open>
  A shallow embedding of \<^verbatim>\<open>SpatialBNGradientOp<CPUContext>::RunOnDevice\<close> from
  \<^verbatim>\<open>caffe2/operators/spatial_batch_norm_gradient_op.cc\<close>.

  Conventions of the embedding.
  \<^item> The operator's five input blobs and three output blobs form a \<open>workspace\<close> record whose
    fields carry the names of the operator's slot tags. The function takes the workspace and
    returns the workspace it leaves behind together with the failure, if any.
  \<^item> Arithmetic is IEEE 754 binary32 with round to nearest, ties to even: every operation
    rounds its exact result (\<open>fl\<close>), overflows to an infinity, and propagates infinities and
    NaN. Each \<^verbatim>\<open>float\<close> operation of the source is one rounded operation (no fused
    multiply-add, no wider intermediate format), and a reduction adds in the order of Eigen's
    plain traversal. Only the sign of zero is not represented. A cell of an input buffer
    holds a finite value, written as the real number it denotes (a binary32 value \<open>x\<close> is a
    real with \<open>fl x = Fin x\<close>; no property below needs more than that the cell is finite);
    a cell of an output buffer holds any \<open>f32\<close>.
  \<^item> Dimensions are natural numbers; the \<^verbatim>\<open>int\<close> products formed by the code are assumed
    not to overflow (predicate \<open>int32_ok\<close>). Reading a dimension beyond the rank, or a cell
    beyond a buffer, is undefined in the source and left unspecified here (\<open>xs ! i\<close> beyond
    the list).
  \<^item> \<^verbatim>\<open>DCHECK_EQ\<close> is a check of debug builds only. The flag \<open>dbg\<close> says whether the build
    has it: with \<open>dbg\<close> a failing check ends the run (the process aborts) with
    \<open>ShapeMismatch\<close> and nothing written; without \<open>dbg\<close> the check is not there.
    \<^verbatim>\<open>CAFFE_THROW\<close> ends the run with \<open>UnsupportedLayout\<close> in every build.
  \<^item> The float divisions a run performs are part of its result: each loop body that reads a
    coefficient of the lazy quotient of line 42 records the dividend and the divisor
    (\<open>RunOnDevice_traced\<close>); \<open>RunOnDevice\<close> and \<open>divisions\<close> are its two projections.
\<close>

subsection \<open>Binary32 arithmetic\<close>

datatype f32 = Fin real | PInf | NInf | NaN

text \<open>The exponent of a magnitude \<open>a\<close>: the \<open>e\<close> in \<open>-126 .. 128\<close> with
  \<open>2^e \<le> a < 2^(e+1)\<close>, and \<open>-126\<close> for the subnormal range. The search carries
  \<open>p = 2^(e+1)\<close>.\<close>

fun expo_search :: "real \<Rightarrow> real \<Rightarrow> int \<Rightarrow> nat \<Rightarrow> int" where
  "expo_search a p e 0 = e"
| "expo_search a p e (Suc n) = (if a < p then e else expo_search a (2 * p) (e + 1) n)"

definition expo :: "real \<Rightarrow> int" where
  "expo a = expo_search a (2 powi (- 125)) (- 126) 254"

text \<open>Round to the nearest integer, ties to the even one.\<close>

definition rne :: "real \<Rightarrow> int" where
  "rne m = (let f = \<lfloor>m\<rfloor>; d = m - of_int f in
            if d < 1 / 2 then f else if 1 / 2 < d then f + 1 else if even f then f else f + 1)"

text \<open>Rounding a real to binary32: 24 significant bits, so the spacing at exponent \<open>e\<close> is
  \<open>2^(e-23)\<close>; a result of magnitude \<open>2^128\<close> or more is an infinity.\<close>

definition fl :: "real \<Rightarrow> f32" where
  "fl x = (let q = 2 powi (expo \<bar>x\<bar> - 23); r = of_int (rne (x / q)) * q in
           if 2 ^ 128 \<le> \<bar>r\<bar> then (if 0 < x then PInf else NInf) else Fin r)"

text \<open>The conversion of an \<^verbatim>\<open>int\<close> to \<^verbatim>\<open>float\<close>.\<close>

definition float_of_int :: "nat \<Rightarrow> f32" where
  "float_of_int n = fl (real n)"

fun is_finite :: "f32 \<Rightarrow> bool" where
  "is_finite (Fin x) = True"
| "is_finite PInf = False"
| "is_finite NInf = False"
| "is_finite NaN = False"

fun fneg :: "f32 \<Rightarrow> f32" where
  "fneg (Fin x) = Fin (- x)"
| "fneg PInf = NInf"
| "fneg NInf = PInf"
| "fneg NaN = NaN"

fun fadd :: "f32 \<Rightarrow> f32 \<Rightarrow> f32" where
  "fadd (Fin x) (Fin y) = fl (x + y)"
| "fadd NaN b = NaN"
| "fadd a NaN = NaN"
| "fadd PInf NInf = NaN"
| "fadd NInf PInf = NaN"
| "fadd PInf b = PInf"
| "fadd a PInf = PInf"
| "fadd NInf b = NInf"
| "fadd a NInf = NInf"

definition fsub :: "f32 \<Rightarrow> f32 \<Rightarrow> f32" where
  "fsub a b = fadd a (fneg b)"

text \<open>The sign of an infinite product or quotient.\<close>

definition signed_inf :: "bool \<Rightarrow> f32" where
  "signed_inf negative = (if negative then NInf else PInf)"

fun fmul :: "f32 \<Rightarrow> f32 \<Rightarrow> f32" where
  "fmul (Fin x) (Fin y) = fl (x * y)"
| "fmul NaN b = NaN"
| "fmul a NaN = NaN"
| "fmul PInf (Fin y) = (if y = 0 then NaN else signed_inf (y < 0))"
| "fmul NInf (Fin y) = (if y = 0 then NaN else signed_inf (0 < y))"
| "fmul (Fin x) PInf = (if x = 0 then NaN else signed_inf (x < 0))"
| "fmul (Fin x) NInf = (if x = 0 then NaN else signed_inf (0 < x))"
| "fmul PInf PInf = PInf"
| "fmul PInf NInf = NInf"
| "fmul NInf PInf = NInf"
| "fmul NInf NInf = PInf"

text \<open>Division. A zero divisor is taken as \<open>+0\<close>, which is what the conversion of the
  \<^verbatim>\<open>int\<close> \<open>N * H * W = 0\<close> gives, the only divisor of the operator.\<close>

fun fdiv :: "f32 \<Rightarrow> f32 \<Rightarrow> f32" where
  "fdiv (Fin x) (Fin y) =
     (if y = 0 then (if x = 0 then NaN else signed_inf (x < 0)) else fl (x / y))"
| "fdiv NaN b = NaN"
| "fdiv a NaN = NaN"
| "fdiv (Fin x) PInf = Fin 0"
| "fdiv (Fin x) NInf = Fin 0"
| "fdiv PInf (Fin y) = signed_inf (y < 0)"
| "fdiv NInf (Fin y) = signed_inf (0 \<le> y)"
| "fdiv PInf PInf = NaN"
| "fdiv PInf NInf = NaN"
| "fdiv NInf PInf = NaN"
| "fdiv NInf NInf = NaN"

subsection \<open>Tensors\<close>

datatype StorageOrder = UNKNOWN | NHWC | NCHW

datatype error = ShapeMismatch | UnsupportedLayout

type_synonym farray = "f32 list"

record 'a Tensor =
  dims :: "nat list"
  data :: "'a list"

definition ndim :: "'a Tensor \<Rightarrow> nat" where
  "ndim t = length (dims t)"

definition dim32 :: "'a Tensor \<Rightarrow> nat \<Rightarrow> nat" where
  "dim32 t i = dims t ! i"

definition tsize :: "'a Tensor \<Rightarrow> nat" where
  "tsize t = prod_list (dims t)"

text \<open>
  Modelled from the spec: \<^verbatim>\<open>Tensor::ResizeLike\<close> is declared in \<^verbatim>\<open>caffe2/core/tensor.h\<close>, which
  is not part of the sources at hand. The spec says the operator "only resizes outputs to match
  inputs and writes into them". The resized tensor takes the dimensions of the source tensor. Its
  buffer is kept (cut to the new element count) when it is large enough, and is otherwise a fresh
  allocation whose cells hold whatever the allocator hands out, given by \<open>raw\<close>.
\<close>

definition ResizeLike :: "(nat \<Rightarrow> f32) \<Rightarrow> f32 Tensor \<Rightarrow> 'a Tensor \<Rightarrow> f32 Tensor" where
  "ResizeLike raw t src =
     \<lparr>dims = dims src,
      data = (if tsize src \<le> length (data t) then take (tsize src) (data t)
              else map raw [0..<tsize src])\<rparr>"

record workspace =
  INPUT :: "real Tensor"
  SCALE :: "real Tensor"
  OUTPUT_GRAD :: "real Tensor"
  SAVED_MEAN :: "real Tensor"
  SAVED_INV_VAR :: "real Tensor"
  INPUT_GRAD :: "f32 Tensor"
  SCALE_GRAD :: "f32 Tensor"
  BIAS_GRAD :: "f32 Tensor"

subsection \<open>Eigen array views\<close>

text \<open>\<^verbatim>\<open>ConstEigenVectorArrayMap<float>(p, n)\<close> and \<^verbatim>\<open>EigenVectorArrayMap<float>(p, n)\<close>: the
  first \<open>n\<close> cells of an input buffer and of an output buffer.\<close>

definition ConstVectorArrayMap :: "real Tensor \<Rightarrow> nat \<Rightarrow> farray" where
  "ConstVectorArrayMap t n = map Fin (take n (data t))"

definition VectorArrayMap :: "f32 Tensor \<Rightarrow> nat \<Rightarrow> farray" where
  "VectorArrayMap t n = take n (data t)"

text \<open>\<^verbatim>\<open>ConstEigenArrayMap<float>(p, rows, cols)\<close> and \<^verbatim>\<open>EigenArrayMap<float>(p, rows, cols)\<close>
  are column-major: column \<open>j\<close> is the block of \<open>rows\<close> cells starting at \<open>j * rows\<close>.\<close>

definition ConstArrayMap :: "real Tensor \<Rightarrow> nat \<Rightarrow> nat \<Rightarrow> farray" where
  "ConstArrayMap t rows cols = map Fin (take (rows * cols) (data t))"

definition ArrayMap :: "f32 Tensor \<Rightarrow> nat \<Rightarrow> nat \<Rightarrow> farray" where
  "ArrayMap t rows cols = take (rows * cols) (data t)"

text \<open>A mutable view of \<open>n\<close> cells is a window on the buffer: what the code writes through
  it lands in the first \<open>n\<close> cells of the buffer, the cells beyond the view stay as they are.\<close>

definition write_back :: "f32 Tensor \<Rightarrow> nat \<Rightarrow> farray \<Rightarrow> f32 Tensor" where
  "write_back t n view = t\<lparr>data := view @ drop n (data t)\<rparr>"

definition col :: "farray \<Rightarrow> nat \<Rightarrow> nat \<Rightarrow> farray" where
  "col a rows j = take rows (drop (j * rows) a)"

definition setZero :: "farray \<Rightarrow> farray" where
  "setZero a = replicate (length a) (Fin 0)"

definition arr_add :: "farray \<Rightarrow> farray \<Rightarrow> farray" where
  "arr_add xs ys = map2 fadd xs ys"

definition arr_sub :: "farray \<Rightarrow> farray \<Rightarrow> farray" where
  "arr_sub xs ys = map2 fsub xs ys"

definition arr_mul :: "farray \<Rightarrow> farray \<Rightarrow> farray" where
  "arr_mul xs ys = map2 fmul xs ys"

definition arr_mul_scalar :: "farray \<Rightarrow> f32 \<Rightarrow> farray" where
  "arr_mul_scalar xs k = map (\<lambda>x. fmul x k) xs"

definition arr_sub_scalar :: "farray \<Rightarrow> f32 \<Rightarrow> farray" where
  "arr_sub_scalar xs k = map (\<lambda>x. fsub x k) xs"

definition scalar_mul_arr :: "f32 \<Rightarrow> farray \<Rightarrow> farray" where
  "scalar_mul_arr k xs = map (\<lambda>x. fmul k x) xs"

text \<open>\<^verbatim>\<open>a.sum()\<close>: zero for an empty array; otherwise the reduction starts from the first
  coefficient and adds the others in order. (Eigen may add in another order when it
  vectorizes; this is the order of its plain traversal.)\<close>

definition fsum :: "farray \<Rightarrow> f32" where
  "fsum xs = (case xs of [] \<Rightarrow> Fin 0 | x # rest \<Rightarrow> foldl fadd x rest)"

text \<open>\<^verbatim>\<open>a.col(j) += v\<close>\<close>

definition col_add :: "farray \<Rightarrow> nat \<Rightarrow> nat \<Rightarrow> farray \<Rightarrow> farray" where
  "col_add a rows j v =
     take (j * rows) a @ arr_add (col a rows j) v @ drop (j * rows + rows) a"

text \<open>\<^verbatim>\<open>a.rowwise().sum()\<close>: entry \<open>r\<close> is the sum of row \<open>r\<close> over all columns.\<close>

definition rowwise_sum :: "farray \<Rightarrow> nat \<Rightarrow> nat \<Rightarrow> farray" where
  "rowwise_sum a rows cols = map (\<lambda>r. fsum (map (\<lambda>j. col a rows j ! r) [0..<cols])) [0..<rows]"

text \<open>\<^verbatim>\<open>a.colwise() - v\<close>: \<open>v\<close> (of length \<open>rows\<close>) is subtracted from every column, so cell
  \<open>k\<close> loses entry \<open>k mod rows\<close> of \<open>v\<close>.\<close>

definition colwise_sub :: "farray \<Rightarrow> nat \<Rightarrow> farray \<Rightarrow> farray" where
  "colwise_sub a rows v = map (\<lambda>k. fsub (a ! k) (v ! (k mod rows))) [0..<length a]"

subsection \<open>The operator, block by block\<close>

text \<open>Lines 12--15: the extents \<open>(N, C, H, W)\<close> read off the dimensions of \<open>X\<close>. Any order other
  than \<open>NCHW\<close> reads them as \<open>(N, H, W, C)\<close>.\<close>

definition extents :: "StorageOrder \<Rightarrow> 'a Tensor \<Rightarrow> nat \<times> nat \<times> nat \<times> nat" where
  "extents order X =
     (dim32 X 0,
      (if order = NCHW then dim32 X 1 else dim32 X 3),
      (if order = NCHW then dim32 X 2 else dim32 X 1),
      (if order = NCHW then dim32 X 3 else dim32 X 2))"

text \<open>The read-only views shared by both branches (lines 19--22, and the maps over \<open>X\<close> and
  \<open>dY\<close> at the head of each branch), with the \<^verbatim>\<open>int\<close> \<open>N * H * W\<close> of line 42 converted to
  \<^verbatim>\<open>float\<close>.\<close>

record views =
  X_arr :: farray
  dY_arr :: farray
  scale_arr :: farray
  mean_arr :: farray
  inv_var_arr :: farray
  NHW :: f32

definition input_views :: "workspace \<Rightarrow> nat \<Rightarrow> nat \<Rightarrow> nat \<Rightarrow> nat \<Rightarrow> nat \<Rightarrow> nat \<Rightarrow> views" where
  "input_views ws rows cols N C H W =
     \<lparr>X_arr = ConstArrayMap (INPUT ws) rows cols,
      dY_arr = ConstArrayMap (OUTPUT_GRAD ws) rows cols,
      scale_arr = ConstVectorArrayMap (SCALE ws) C,
      mean_arr = ConstVectorArrayMap (SAVED_MEAN ws) C,
      inv_var_arr = ConstVectorArrayMap (SAVED_INV_VAR ws) C,
      NHW = float_of_int (N * H * W)\<rparr>"

text \<open>Line 42 builds a lazy expression: nothing is computed there. Coefficient \<open>c\<close> of
  \<^verbatim>\<open>scale_arr * inv_var_arr / (N * H * W)\<close> is computed, by one multiplication and one
  division, each time a statement reads it. \<open>division v c\<close> is the division it then performs,
  as the pair of dividend and divisor.\<close>

definition division :: "views \<Rightarrow> nat \<Rightarrow> f32 \<times> f32" where
  "division v c = (fmul (scale_arr v ! c) (inv_var_arr v ! c), NHW v)"

definition scaleInvVarNHW :: "views \<Rightarrow> nat \<Rightarrow> f32" where
  "scaleInvVarNHW v c = (case division v c of (a, b) \<Rightarrow> fdiv a b)"

text \<open>Lines 24--40: the three outputs are resized, then \<open>dBias\<close> and \<open>dScale\<close> are zeroed.\<close>

definition init_outputs :: "(nat \<Rightarrow> f32) \<Rightarrow> workspace \<Rightarrow> nat \<Rightarrow> workspace" where
  "init_outputs raw ws C =
     (let dX = ResizeLike raw (INPUT_GRAD ws) (INPUT ws);
          dScale = ResizeLike raw (SCALE_GRAD ws) (SCALE ws);
          dBias = ResizeLike raw (BIAS_GRAD ws) (SCALE ws)
      in ws\<lparr>INPUT_GRAD := dX,
             SCALE_GRAD := write_back dScale C (setZero (VectorArrayMap dScale C)),
             BIAS_GRAD := write_back dBias C (setZero (VectorArrayMap dBias C))\<rparr>)"

text \<open>Lines 51--57: the reduction loop of the NCHW branch, one step per block \<open>nc\<close>.\<close>

definition reduce_NCHW :: "views \<Rightarrow> nat \<Rightarrow> nat \<Rightarrow> nat \<Rightarrow> farray \<times> farray \<Rightarrow> farray \<times> farray" where
  "reduce_NCHW v C HW nc acc =
     (case acc of (dBias_arr, dScale_arr) \<Rightarrow>
        let c = nc mod C in
        (dBias_arr[c := fadd (dBias_arr ! c) (fsum (col (dY_arr v) HW nc))],
         dScale_arr[c := fadd (dScale_arr ! c)
            (fsum (arr_mul
              (arr_mul_scalar (arr_sub_scalar (col (X_arr v) HW nc) (mean_arr v ! c)) (inv_var_arr v ! c))
              (col (dY_arr v) HW nc)))]))"

text \<open>Lines 58--63: the propagation loop of the NCHW branch. Each step reads one coefficient
  of the lazy quotient, \<^verbatim>\<open>scaleInvVarNHW(c)\<close>, as a scalar; the second component of the loop
  state lists the divisions performed so far.\<close>

definition propagate_NCHW ::
  "views \<Rightarrow> nat \<Rightarrow> nat \<Rightarrow> nat \<Rightarrow> nat \<Rightarrow> farray \<Rightarrow> farray \<Rightarrow> nat \<Rightarrow>
   farray \<times> (f32 \<times> f32) list \<Rightarrow> farray \<times> (f32 \<times> f32) list" where
  "propagate_NCHW v N C H W dBias_arr dScale_arr nc st =
     (case st of (dX_arr, divs) \<Rightarrow>
        let c = nc mod C in
        (col_add dX_arr (H * W) nc
          (scalar_mul_arr (scaleInvVarNHW v c)
            (arr_sub
              (arr_sub_scalar
                 (arr_mul_scalar
                    (arr_mul_scalar (arr_mul_scalar (col (dY_arr v) (H * W) nc) (float_of_int N))
                       (float_of_int H))
                    (float_of_int W))
                 (dBias_arr ! c))
              (arr_mul_scalar
                 (arr_mul_scalar (arr_sub_scalar (col (X_arr v) (H * W) nc) (mean_arr v ! c)) (dScale_arr ! c))
                 (inv_var_arr v ! c)))),
         divs @ [division v c]))"

text \<open>Lines 45--65: the NCHW branch. \<open>X\<close>, \<open>dY\<close> and \<open>dX\<close> are seen as \<open>H * W\<close> rows by
  \<open>N * C\<close> columns. The result is the workspace and the divisions performed.\<close>

definition run_NCHW :: "workspace \<Rightarrow> nat \<Rightarrow> nat \<Rightarrow> nat \<Rightarrow> nat \<Rightarrow> workspace \<times> (f32 \<times> f32) list" where
  "run_NCHW ws N C H W =
     (let v = input_views ws (H * W) (N * C) N C H W;
          dX_arr = setZero (ArrayMap (INPUT_GRAD ws) (H * W) (N * C));
          (dBias_arr, dScale_arr) =
             fold (reduce_NCHW v C (H * W)) [0..<N * C]
               (VectorArrayMap (BIAS_GRAD ws) C, VectorArrayMap (SCALE_GRAD ws) C);
          (dX_arr', divs) = fold (propagate_NCHW v N C H W dBias_arr dScale_arr) [0..<N * C] (dX_arr, [])
      in (ws\<lparr>INPUT_GRAD := write_back (INPUT_GRAD ws) (H * W * (N * C)) dX_arr',
              SCALE_GRAD := write_back (SCALE_GRAD ws) C dScale_arr,
              BIAS_GRAD := write_back (BIAS_GRAD ws) C dBias_arr\<rparr>, divs))"

text \<open>Lines 76--83: the single loop of the NHWC branch, one step per position \<open>nhw\<close>. The
  expressions of lines 72--75 are lazy and read inputs only. Line 80 reads all \<open>C\<close>
  coefficients of the lazy quotient.\<close>

definition step_NHWC ::
  "views \<Rightarrow> nat \<Rightarrow> nat \<Rightarrow> nat \<Rightarrow> nat \<Rightarrow> nat \<Rightarrow>
   farray \<times> farray \<times> farray \<times> (f32 \<times> f32) list \<Rightarrow> farray \<times> farray \<times> farray \<times> (f32 \<times> f32) list" where
  "step_NHWC v N C H W nhw acc =
     (case acc of (dBias_arr, dScale_arr, dX_arr, divs) \<Rightarrow>
        let dYRowSum = rowwise_sum (dY_arr v) C (N * H * W);
            XMinusMean = colwise_sub (X_arr v) C (mean_arr v);
            dYMulXMinusMeanRowSum = rowwise_sum (arr_mul (dY_arr v) XMinusMean) C (N * H * W);
            invVarSqr = arr_mul (inv_var_arr v) (inv_var_arr v)
        in
        (arr_add dBias_arr (col (dY_arr v) C nhw),
         arr_add dScale_arr
           (arr_mul (arr_mul (arr_sub (col (X_arr v) C nhw) (mean_arr v)) (inv_var_arr v)) (col (dY_arr v) C nhw)),
         col_add dX_arr C nhw
           (arr_mul (map (scaleInvVarNHW v) [0..<C])
             (arr_sub
               (arr_sub
                 (arr_mul_scalar
                    (arr_mul_scalar (arr_mul_scalar (col (dY_arr v) C nhw) (float_of_int N))
                       (float_of_int H))
                    (float_of_int W))
                 dYRowSum)
               (arr_mul (arr_mul (col XMinusMean C nhw) invVarSqr) dYMulXMinusMeanRowSum))),
         divs @ map (division v) [0..<C]))"

text \<open>Lines 66--85: the NHWC branch. \<open>X\<close>, \<open>dY\<close> and \<open>dX\<close> are seen as \<open>C\<close> rows by
  \<open>N * H * W\<close> columns.\<close>

definition run_NHWC :: "workspace \<Rightarrow> nat \<Rightarrow> nat \<Rightarrow> nat \<Rightarrow> nat \<Rightarrow> workspace \<times> (f32 \<times> f32) list" where
  "run_NHWC ws N C H W =
     (let v = input_views ws C (N * H * W) N C H W;
          dX_arr = setZero (ArrayMap (INPUT_GRAD ws) C (N * H * W));
          (dBias_arr, dScale_arr, dX_arr', divs) =
             fold (step_NHWC v N C H W) [0..<N * H * W]
               (VectorArrayMap (BIAS_GRAD ws) C, VectorArrayMap (SCALE_GRAD ws) C, dX_arr, [])
      in (ws\<lparr>INPUT_GRAD := write_back (INPUT_GRAD ws) (C * (N * H * W)) dX_arr',
              SCALE_GRAD := write_back (SCALE_GRAD ws) C dScale_arr,
              BIAS_GRAD := write_back (BIAS_GRAD ws) C dBias_arr\<rparr>, divs))"

text \<open>The whole of \<^verbatim>\<open>RunOnDevice\<close>, with the divisions it performs. The result gives the
  failure (\<open>None\<close> for \<^verbatim>\<open>return true\<close>), the workspace as the run leaves it, and the
  divisions in the order in which they were performed.\<close>

definition RunOnDevice_traced ::
  "bool \<Rightarrow> (nat \<Rightarrow> f32) \<Rightarrow> StorageOrder \<Rightarrow> workspace \<Rightarrow> error option \<times> workspace \<times> (f32 \<times> f32) list" where
  "RunOnDevice_traced dbg raw order ws =
     (if dbg \<and> ndim (INPUT ws) \<noteq> 4 then (Some ShapeMismatch, ws, []) else
      case extents order (INPUT ws) of (N, C, H, W) \<Rightarrow>
      if dbg \<and> ndim (SCALE ws) \<noteq> 1 then (Some ShapeMismatch, ws, []) else
      if dbg \<and> dim32 (SCALE ws) 0 \<noteq> C then (Some ShapeMismatch, ws, []) else
      let ws0 = init_outputs raw ws C in
      (case order of
         NCHW \<Rightarrow> (None, run_NCHW ws0 N C H W)
       | NHWC \<Rightarrow> (None, run_NHWC ws0 N C H W)
       | UNKNOWN \<Rightarrow> (Some UnsupportedLayout, ws0, [])))"

text \<open>The outcome and the workspace of a run.\<close>

definition RunOnDevice ::
  "bool \<Rightarrow> (nat \<Rightarrow> f32) \<Rightarrow> StorageOrder \<Rightarrow> workspace \<Rightarrow> error option \<times> workspace" where
  "RunOnDevice dbg raw order ws =
     (case RunOnDevice_traced dbg raw order ws of (e, ws', divs) \<Rightarrow> (e, ws'))"

text \<open>The divisions of a run.\<close>

definition divisions :: "bool \<Rightarrow> (nat \<Rightarrow> f32) \<Rightarrow> StorageOrder \<Rightarrow> workspace \<Rightarrow> (f32 \<times> f32) list" where
  "divisions dbg raw order ws =
     (case RunOnDevice_traced dbg raw order ws of (e, ws', divs) \<Rightarrow> divs)"

subsection \<open>Well-formed invocations and logical indexing\<close>

text \<open>The \<^verbatim>\<open>int\<close> values the code forms: the four extents and the products \<open>N * H\<close>,
  \<open>N * H * W\<close>, \<open>H * W\<close> and \<open>N * C\<close>.\<close>

definition int32_ok :: "nat \<Rightarrow> nat \<Rightarrow> nat \<Rightarrow> nat \<Rightarrow> bool" where
  "int32_ok N C H W =
     (N < 2 ^ 31 \<and> C < 2 ^ 31 \<and> H < 2 ^ 31 \<and> W < 2 ^ 31 \<and>
      N * H < 2 ^ 31 \<and> N * H * W < 2 ^ 31 \<and> H * W < 2 ^ 31 \<and> N * C < 2 ^ 31)"

text \<open>The data-model invariants the operator relies on: \<open>X\<close> has rank 4, \<open>dY\<close> has the shape
  of \<open>X\<close>, the three per-channel inputs are vectors of length \<open>C\<close>, and every buffer holds as
  many cells as its dimensions say. The code checks the rank of \<open>X\<close> and the shape of \<open>scale\<close>
  only, and only in a debug build; the rest is the caller's obligation.\<close>

definition well_formed :: "StorageOrder \<Rightarrow> workspace \<Rightarrow> bool" where
  "well_formed order ws =
     (case extents order (INPUT ws) of (N, C, H, W) \<Rightarrow>
        ndim (INPUT ws) = 4 \<and> length (data (INPUT ws)) = tsize (INPUT ws) \<and>
        dims (OUTPUT_GRAD ws) = dims (INPUT ws) \<and>
        length (data (OUTPUT_GRAD ws)) = tsize (INPUT ws) \<and>
        dims (SCALE ws) = [C] \<and> length (data (SCALE ws)) = C \<and>
        dims (SAVED_MEAN ws) = [C] \<and> length (data (SAVED_MEAN ws)) = C \<and>
        dims (SAVED_INV_VAR ws) = [C] \<and> length (data (SAVED_INV_VAR ws)) = C \<and>
        int32_ok N C H W)"

text \<open>What the code itself needs in order to run through without reading or writing outside a
  buffer: as \<open>well_formed\<close>, except that the saved mean and the saved inverse standard
  deviation only have to hold at least \<open>C\<close> cells, of which the first \<open>C\<close> are read.\<close>

definition runnable :: "StorageOrder \<Rightarrow> workspace \<Rightarrow> bool" where
  "runnable order ws =
     (case extents order (INPUT ws) of (N, C, H, W) \<Rightarrow>
        ndim (INPUT ws) = 4 \<and> length (data (INPUT ws)) = tsize (INPUT ws) \<and>
        dims (OUTPUT_GRAD ws) = dims (INPUT ws) \<and>
        length (data (OUTPUT_GRAD ws)) = tsize (INPUT ws) \<and>
        dims (SCALE ws) = [C] \<and> length (data (SCALE ws)) = C \<and>
        C \<le> length (data (SAVED_MEAN ws)) \<and> C \<le> length (data (SAVED_INV_VAR ws)) \<and>
        int32_ok N C H W)"

text \<open>Element \<open>(n, c, h, w)\<close> of a rank-4 tensor stored in the given order: in \<open>NCHW\<close> the
  block of \<open>(n, c)\<close> is column \<open>n * C + c\<close> and \<open>(h, w)\<close> is row \<open>h * W + w\<close> of it; in
  \<open>NHWC\<close> the position \<open>(n, h, w)\<close> is column \<open>(n * H + h) * W + w\<close> and \<open>c\<close> its row.\<close>

definition elem :: "StorageOrder \<Rightarrow> 'a Tensor \<Rightarrow> nat \<Rightarrow> nat \<Rightarrow> nat \<Rightarrow> nat \<Rightarrow> 'a" where
  "elem order t n c h w =
     (case extents order t of (N, C, H, W) \<Rightarrow>
        if order = NCHW then data t ! ((n * C + c) * (H * W) + (h * W + w))
        else data t ! (((n * H + h) * W + w) * C + c))"

text \<open>The state in which a layout branch starts: inputs of the right sizes, the two
  accumulators zeroed, \<open>dX\<close> resized.\<close>

definition ready :: "workspace \<Rightarrow> nat \<Rightarrow> nat \<Rightarrow> nat \<Rightarrow> nat \<Rightarrow> bool" where
  "ready ws N C H W =
     (length (data (INPUT ws)) = N * C * H * W \<and>
      length (data (OUTPUT_GRAD ws)) = N * C * H * W \<and>
      length (data (SCALE ws)) = C \<and>
      C \<le> length (data (SAVED_MEAN ws)) \<and>
      C \<le> length (data (SAVED_INV_VAR ws)) \<and>
      length (data (INPUT_GRAD ws)) = N * C * H * W \<and>
      data (SCALE_GRAD ws) = replicate C (Fin 0) \<and>
      data (BIAS_GRAD ws) = replicate C (Fin 0))"

subsection \<open>What the passes compute, element by element\<close>

text \<open>The term that position \<open>(n, h, w)\<close> contributes to the bias gradient of channel \<open>c\<close>,
  and the term it contributes to the scale gradient: the centred activation times the inverse
  standard deviation times the output gradient, each operation rounded, in the association
  of lines 55 and 79.\<close>

definition bias_term :: "StorageOrder \<Rightarrow> workspace \<Rightarrow> nat \<Rightarrow> nat \<Rightarrow> nat \<Rightarrow> nat \<Rightarrow> f32" where
  "bias_term order ws c n h w = Fin (elem order (OUTPUT_GRAD ws) n c h w)"

definition centred :: "StorageOrder \<Rightarrow> workspace \<Rightarrow> nat \<Rightarrow> nat \<Rightarrow> nat \<Rightarrow> nat \<Rightarrow> f32" where
  "centred order ws c n h w =
     fsub (Fin (elem order (INPUT ws) n c h w)) (Fin (data (SAVED_MEAN ws) ! c))"

definition scale_term :: "StorageOrder \<Rightarrow> workspace \<Rightarrow> nat \<Rightarrow> nat \<Rightarrow> nat \<Rightarrow> nat \<Rightarrow> f32" where
  "scale_term order ws c n h w =
     fmul (fmul (centred order ws c n h w) (Fin (data (SAVED_INV_VAR ws) ! c)))
       (Fin (elem order (OUTPUT_GRAD ws) n c h w))"

text \<open>The positions of a block in memory order, and all positions of a channel in memory
  order.\<close>

definition block_positions :: "nat \<Rightarrow> nat \<Rightarrow> (nat \<times> nat) list" where
  "block_positions H W = List.product [0..<H] [0..<W]"

definition all_positions :: "nat \<Rightarrow> nat \<Rightarrow> nat \<Rightarrow> (nat \<times> nat \<times> nat) list" where
  "all_positions N H W = List.product [0..<N] (List.product [0..<H] [0..<W])"

text \<open>The order in which each layout adds the terms \<open>t n h w\<close> of a channel into its zeroed
  accumulator: the NCHW branch adds, for \<open>n = 0, 1, ...\<close>, the sum of block \<open>n\<close>; the NHWC
  branch adds the terms one by one.\<close>

definition accumulated :: "StorageOrder \<Rightarrow> nat \<Rightarrow> nat \<Rightarrow> nat \<Rightarrow> (nat \<Rightarrow> nat \<Rightarrow> nat \<Rightarrow> f32) \<Rightarrow> f32" where
  "accumulated order N H W t =
     (if order = NCHW
      then foldl fadd (Fin 0) (map (\<lambda>n. fsum (map (\<lambda>(h, w). t n h w) (block_positions H W))) [0..<N])
      else foldl fadd (Fin 0) (map (\<lambda>(n, h, w). t n h w) (all_positions N H W)))"

text \<open>The row sums of lines 72 and 74, which the NHWC branch uses in place of the
  accumulators: the plain sum of a channel's terms in memory order.\<close>

definition row_total :: "nat \<Rightarrow> nat \<Rightarrow> nat \<Rightarrow> (nat \<Rightarrow> nat \<Rightarrow> nat \<Rightarrow> f32) \<Rightarrow> f32" where
  "row_total N H W t = fsum (map (\<lambda>(n, h, w). t n h w) (all_positions N H W))"

text \<open>The per-channel factor \<open>scale[c] * invStd[c] / (N * H * W)\<close> and the output gradient
  times \<open>N\<close>, \<open>H\<close> and \<open>W\<close>, as lines 42 and 61 (81) compute them.\<close>

definition channel_factor :: "workspace \<Rightarrow> nat \<Rightarrow> nat \<Rightarrow> nat \<Rightarrow> nat \<Rightarrow> f32" where
  "channel_factor ws N H W c =
     fdiv (fmul (Fin (data (SCALE ws) ! c)) (Fin (data (SAVED_INV_VAR ws) ! c)))
       (float_of_int (N * H * W))"

definition scaled_grad :: "StorageOrder \<Rightarrow> workspace \<Rightarrow> nat \<Rightarrow> nat \<Rightarrow> nat \<Rightarrow> nat \<Rightarrow> nat \<Rightarrow> nat \<Rightarrow> nat \<Rightarrow> f32" where
  "scaled_grad order ws N H W c n h w =
     fmul (fmul (fmul (Fin (elem order (OUTPUT_GRAD ws) n c h w)) (float_of_int N)) (float_of_int H))
       (float_of_int W)"

text \<open>The value the propagation pass leaves in element \<open>(n, c, h, w)\<close> of the zeroed input
  gradient. Both branches evaluate
  \<open>factor * (dY * N * H * W - bias_sum - correction)\<close> from left to right and add it to the
  zero of the cell. The NCHW branch (line 61) takes for \<open>bias_sum\<close> the bias accumulator and
  for \<open>correction\<close> \<open>(X - mean) * scale_sum * invStd\<close> with the scale accumulator. The NHWC
  branch (lines 72--75, 81) takes for \<open>bias_sum\<close> the row sum of \<open>dY\<close> and for \<open>correction\<close>
  \<open>(X - mean) * (invStd * invStd) * s\<close>, where \<open>s\<close> is the row sum of \<open>dY * (X - mean)\<close>.\<close>

definition propagated :: "StorageOrder \<Rightarrow> workspace \<Rightarrow> nat \<Rightarrow> nat \<Rightarrow> nat \<Rightarrow> nat \<Rightarrow> nat \<Rightarrow> nat \<Rightarrow> nat \<Rightarrow> f32" where
  "propagated order ws N H W c n h w =
     (let invStd = Fin (data (SAVED_INV_VAR ws) ! c);
          bias_sum = (if order = NCHW then accumulated NCHW N H W (bias_term NCHW ws c)
                      else row_total N H W (bias_term order ws c));
          correction =
            (if order = NCHW
             then fmul (fmul (centred NCHW ws c n h w) (accumulated NCHW N H W (scale_term NCHW ws c))) invStd
             else fmul (fmul (centred order ws c n h w) (fmul invStd invStd))
                    (row_total N H W (\<lambda>n h w. fmul (bias_term order ws c n h w) (centred order ws c n h w))))
      in fadd (Fin 0)
           (fmul (channel_factor ws N H W c)
              (fsub (fsub (scaled_grad order ws N H W c n h w) bias_sum) correction)))"

text \<open>The formula of the specification for element \<open>(n, c, h, w)\<close>, over the reals, from the
  exact per-channel sums.\<close>

definition exact_sum :: "nat \<Rightarrow> nat \<Rightarrow> nat \<Rightarrow> (nat \<Rightarrow> nat \<Rightarrow> nat \<Rightarrow> real) \<Rightarrow> real" where
  "exact_sum N H W t = sum_list (map (\<lambda>(n, h, w). t n h w) (all_positions N H W))"

definition exact_bias :: "StorageOrder \<Rightarrow> workspace \<Rightarrow> nat \<Rightarrow> nat \<Rightarrow> nat \<Rightarrow> nat \<Rightarrow> real" where
  "exact_bias order ws N H W c = exact_sum N H W (\<lambda>n h w. elem order (OUTPUT_GRAD ws) n c h w)"

definition exact_scale :: "StorageOrder \<Rightarrow> workspace \<Rightarrow> nat \<Rightarrow> nat \<Rightarrow> nat \<Rightarrow> nat \<Rightarrow> real" where
  "exact_scale order ws N H W c =
     exact_sum N H W (\<lambda>n h w. (elem order (INPUT ws) n c h w - data (SAVED_MEAN ws) ! c) *
        data (SAVED_INV_VAR ws) ! c * elem order (OUTPUT_GRAD ws) n c h w)"

definition formula :: "StorageOrder \<Rightarrow> workspace \<Rightarrow> nat \<Rightarrow> nat \<Rightarrow> nat \<Rightarrow> nat \<Rightarrow> nat \<Rightarrow> nat \<Rightarrow> nat \<Rightarrow> real" where
  "formula order ws N H W c n h w =
     (data (SCALE ws) ! c * data (SAVED_INV_VAR ws) ! c / real (N * H * W)) *
     (elem order (OUTPUT_GRAD ws) n c h w * real (N * H * W) - exact_bias order ws N H W c -
      (elem order (INPUT ws) n c h w - data (SAVED_MEAN ws) ! c) * data (SAVED_INV_VAR ws) ! c *
        exact_scale order ws N H W c)"

text \<open>The terms of a channel are small integers: each is an integer, and their magnitudes add
  up to at most \<open>2^24\<close>. Sums of such terms are binary32 values in whatever order they are
  formed.\<close>

fun the_real :: "f32 \<Rightarrow> real" where
  "the_real (Fin r) = r"
| "the_real PInf = 0"
| "the_real NInf = 0"
| "the_real NaN = 0"

definition is_integer :: "f32 \<Rightarrow> bool" where
  "is_integer a = (is_finite a \<and> of_int \<lfloor>the_real a\<rfloor> = the_real a)"

definition small_integers :: "nat \<Rightarrow> nat \<Rightarrow> nat \<Rightarrow> (nat \<Rightarrow> nat \<Rightarrow> nat \<Rightarrow> f32) \<Rightarrow> bool" where
  "small_integers N H W t =
     (list_all (\<lambda>(n, h, w). is_integer (t n h w)) (all_positions N H W) \<and>
      sum_list (map (\<lambda>(n, h, w). \<bar>the_real (t n h w)\<bar>) (all_positions N H W)) \<le> 2 ^ 24)"

text \<open>The exact sum of the terms of a channel.\<close>

definition exact_total :: "nat \<Rightarrow> nat \<Rightarrow> nat \<Rightarrow> (nat \<Rightarrow> nat \<Rightarrow> nat \<Rightarrow> f32) \<Rightarrow> real" where
  "exact_total N H W t = sum_list (map (\<lambda>(n, h, w). the_real (t n h w)) (all_positions N H W))"

text \<open>No intermediate value of channel \<open>c\<close> at position \<open>(n, h, w)\<close> overflows: the per-channel
  factor, the centred activation times the inverse standard deviation (lines 55 and 79), and the
  centred activation times the squared inverse standard deviation (line 82) are finite.\<close>

definition overflow_free :: "StorageOrder \<Rightarrow> workspace \<Rightarrow> nat \<Rightarrow> nat \<Rightarrow> nat \<Rightarrow> nat \<Rightarrow> nat \<Rightarrow> nat \<Rightarrow> nat \<Rightarrow> bool" where
  "overflow_free order ws N H W c n h w =
     (is_finite (channel_factor ws N H W c) \<and>
      is_finite (fmul (centred order ws c n h w) (Fin (data (SAVED_INV_VAR ws) ! c))) \<and>
      is_finite (fmul (centred order ws c n h w)
                   (fmul (Fin (data (SAVED_INV_VAR ws) ! c)) (Fin (data (SAVED_INV_VAR ws) ! c)))))"

subsection \<open>Concrete invocations\<close>

text \<open>An output blob as a caller may leave it before the run: one cell holding the sentinel 7.\<close>

definition sentinel :: "f32 Tensor" where
  "sentinel = \<lparr>dims = [1], data = [Fin 7]\<rparr>"

text \<open>A workspace from the dimensions of \<open>X\<close> and \<open>dY\<close> and the five input buffers; the three
  per-channel inputs are vectors as long as their buffers, the outputs hold the sentinel.\<close>

definition invocation ::
  "nat list \<Rightarrow> real list \<Rightarrow> real list \<Rightarrow> real list \<Rightarrow> real list \<Rightarrow> real list \<Rightarrow> workspace" where
  "invocation d x dy sc mn iv =
     \<lparr>INPUT = \<lparr>dims = d, data = x\<rparr>,
      SCALE = \<lparr>dims = [length sc], data = sc\<rparr>,
      OUTPUT_GRAD = \<lparr>dims = d, data = dy\<rparr>,
      SAVED_MEAN = \<lparr>dims = [length mn], data = mn\<rparr>,
      SAVED_INV_VAR = \<lparr>dims = [length iv], data = iv\<rparr>,
      INPUT_GRAD = sentinel, SCALE_GRAD = sentinel, BIAS_GRAD = sentinel\<rparr>"

text \<open>The numerical check of the specification: \<open>N = 2\<close>, \<open>C = H = W = 1\<close>. With these extents
  the dimensions and the buffer are the same in both layouts. The prior contents of the three
  outputs are parameters.\<close>

definition numeric_check :: "f32 Tensor \<Rightarrow> f32 Tensor \<Rightarrow> f32 Tensor \<Rightarrow> workspace" where
  "numeric_check dX dScale dBias =
     \<lparr>INPUT = \<lparr>dims = [2, 1, 1, 1], data = [1, 3]\<rparr>,
      SCALE = \<lparr>dims = [1], data = [2]\<rparr>,
      OUTPUT_GRAD = \<lparr>dims = [2, 1, 1, 1], data = [1, 1]\<rparr>,
      SAVED_MEAN = \<lparr>dims = [1], data = [2]\<rparr>,
      SAVED_INV_VAR = \<lparr>dims = [1], data = [1]\<rparr>,
      INPUT_GRAD = dX, SCALE_GRAD = dScale, BIAS_GRAD = dBias\<rparr>"

text \<open>A tensor with \<open>N = 1\<close>, \<open>C = 2\<close>, \<open>H = 1\<close>, \<open>W = 2\<close> in both layouts. Channel 0 holds
  \<open>1, 1\<close> and channel 1 holds \<open>3, 4\<close>; the output gradient is a parameter, given in the layout
  of the workspace.\<close>

definition sample_NCHW :: "real list \<Rightarrow> workspace" where
  "sample_NCHW dy = invocation [1, 2, 1, 2] [1, 1, 3, 4] dy [2, 1] [1, 3] [1, 2]"

definition sample_NHWC :: "real list \<Rightarrow> workspace" where
  "sample_NHWC dy = invocation [1, 1, 2, 2] [1, 3, 1, 4] dy [2, 1] [1, 3] [1, 2]"

text \<open>The numerical check with a saved mean of two cells although \<open>C = 1\<close>.\<close>

definition long_mean :: workspace where
  "long_mean = invocation [2, 1, 1, 1] [1, 3] [1, 1] [2] [2, 0] [1]"

text \<open>The numerical check with a scale of two cells although \<open>C = 1\<close>.\<close>

definition long_scale :: workspace where
  "long_scale = invocation [2, 1, 1, 1] [1, 3] [1, 1] [2, 2] [2] [1]"

text \<open>An input without spatial positions: \<open>N = 1\<close>, \<open>C = 1\<close>, \<open>H = 0\<close>, \<open>W = 1\<close> in NCHW order.\<close>

definition empty_height :: workspace where
  "empty_height = invocation [1, 1, 0, 1] [] [] [2] [2] [1]"

text \<open>Three samples of one channel and one position, \<open>N = 3\<close>, \<open>C = H = W = 1\<close>: the factor
  \<open>1 / 3\<close> is not a binary32 value.\<close>

definition three_samples :: workspace where
  "three_samples = invocation [3, 1, 1, 1] [0, 0, 0] [1, 0, 0] [1] [0] [1]"

text \<open>Two samples, \<open>N = 2\<close>, \<open>C = H = W = 1\<close>, whose output gradients \<open>2^24\<close> and \<open>1\<close> have a
  sum, \<open>2^24 + 1\<close>, that is not a binary32 value.\<close>

definition large_gradient :: workspace where
  "large_gradient = invocation [2, 1, 1, 1] [0, 0] [16777216, 1] [1] [0] [1]"

text \<open>One logical tensor with \<open>N = 2\<close>, \<open>C = 1\<close>, \<open>H = 2\<close>, \<open>W = 1\<close> in the given layout. With
  one channel the buffers are the same in both layouts; the dimensions differ. The centred
  activations are \<open>1\<close>, so that the scale terms are the output gradients
  \<open>2^24, 0, 1, 1\<close>.\<close>

definition two_blocks :: "StorageOrder \<Rightarrow> workspace" where
  "two_blocks order =
     invocation (if order = NCHW then [2, 1, 2, 1] else [2, 2, 1, 1])
       [1, 1, 1, 1] [16777216, 0, 1, 1] [1] [0] [1]"

text \<open>The same logical tensor with small output gradients \<open>1, 2, 3, 4\<close>.\<close>

definition two_small_blocks :: "StorageOrder \<Rightarrow> workspace" where
  "two_small_blocks order =
     invocation (if order = NCHW then [2, 1, 2, 1] else [2, 2, 1, 1])
       [1, 1, 1, 1] [1, 2, 3, 4] [1] [0] [1]"

text \<open>One element, \<open>N = C = H = W = 1\<close>, with a zero output gradient, whose activation
  \<open>2^127\<close> and saved mean \<open>-2^127\<close> are binary32 values with a difference, \<open>2^128\<close>, beyond
  the binary32 range.\<close>

definition far_from_mean :: workspace where
  "far_from_mean = invocation [1, 1, 1, 1] [2 ^ 127] [0] [1] [- (2 ^ 127)] [1]"

section \<open>Properties of the embedding\<close>

subsection \<open>Binary32 rounding\<close>

lemma expo_search_char:
  "p = 2 powi (e + 1) \<Longrightarrow> e \<le> e' \<Longrightarrow> e' - e \<le> int n \<Longrightarrow>
   (e' = e \<or> 2 powi e' \<le> a) \<Longrightarrow> a < 2 powi (e' + 1) \<Longrightarrow> expo_search a p e n = e'"
proof (induction n arbitrary: e p)
  case 0
  then show ?case by simp
next
  case (Suc n)
  show ?case
  proof (cases "a < p")
    case True
    have "e' = e"
    proof (rule ccontr)
      assume "e' \<noteq> e"
      then have "e + 1 \<le> e'" and "2 powi e' \<le> a" using Suc.prems by auto
      then have "p \<le> a" using Suc.prems(1) power_int_increasing[of "e + 1" e' "2::real"] by simp
      then show False using True by simp
    qed
    then show ?thesis using True by simp
  next
    case False
    then have ne: "e' \<noteq> e" using Suc.prems(1,5) by auto
    have "expo_search a (2 * p) (e + 1) n = e'"
    proof (rule Suc.IH)
      show "2 * p = 2 powi (e + 1 + 1)" using Suc.prems(1) by (simp add: power_int_add)
      show "e + 1 \<le> e'" using ne Suc.prems(2) by simp
      show "e' - (e + 1) \<le> int n" using Suc.prems(3) by simp
      show "e' = e + 1 \<or> 2 powi e' \<le> a" using ne Suc.prems(4) by simp
      show "a < 2 powi (e' + 1)" by (rule Suc.prems(5))
    qed
    then show ?thesis using False by simp
  qed
qed

lemma expo_char:
  assumes "- 126 \<le> e" "e \<le> 128" "e = - 126 \<or> 2 powi e \<le> a" "a < 2 powi (e + 1)"
  shows "expo a = e"
  unfolding expo_def using assms by (intro expo_search_char) auto

lemma rne_of_int [simp]: "rne (of_int z) = z"
  by (simp add: rne_def)

lemma rne_Ints: "m \<in> \<int> \<Longrightarrow> of_int (rne m) = m"
  by (auto elim: Ints_cases)

text \<open>A value that is a multiple of the spacing at its exponent, and below \<open>2^128\<close>, is a
  binary32 value: rounding leaves it as it is.\<close>

lemma fl_exact:
  assumes "x / 2 powi (expo \<bar>x\<bar> - 23) \<in> \<int>" and "\<bar>x\<bar> < 2 ^ 128"
  shows "fl x = Fin x"
proof -
  have "of_int (rne (x / 2 powi (expo \<bar>x\<bar> - 23))) * 2 powi (expo \<bar>x\<bar> - 23) = x"
    using assms(1) by (simp add: rne_Ints)
  then show ?thesis using assms(2) by (simp add: fl_def Let_def)
qed

lemma fl_0 [simp]: "fl 0 = Fin 0"
  by (rule fl_exact) simp_all

text \<open>Integers up to \<open>2^24\<close> in magnitude are binary32 values.\<close>

lemma fl_of_int:
  assumes "\<bar>k\<bar> \<le> 2 ^ 24"
  shows "fl (of_int k) = Fin (of_int k)"
proof (cases "k = 0")
  case True
  then show ?thesis by simp
next
  case False
  define a where "a = nat \<bar>k\<bar>"
  have a: "0 < a" "a \<le> 2 ^ 24" "real a = \<bar>of_int k\<bar>"
    using False assms by (simp_all add: a_def le_nat_iff)
  have "\<exists>m. 2 ^ m \<le> a \<and> a < 2 ^ (m + 1)" using a(1) by (intro ex_power_ivl1) simp_all
  then obtain m where m: "2 ^ m \<le> a" "a < 2 ^ (m + 1)" by blast
  define e where "e = int m"
  have lo: "2 ^ nat e \<le> a" using m(1) by (simp add: e_def)
  have hi: "a < 2 ^ nat (e + 1)" using m(2) by (simp add: e_def nat_add_distrib)
  have e0: "0 \<le> e" by (simp add: e_def)
  have e24: "e \<le> 24"
  proof (rule ccontr)
    assume "\<not> e \<le> 24"
    then have "25 \<le> nat e" by simp
    then have "(2::nat) ^ 25 \<le> 2 ^ nat e" by (intro power_increasing) simp_all
    then show False using lo a(2) by simp
  qed
  have lo': "2 powi e \<le> real a"
  proof -
    have "real (2 ^ nat e) \<le> real a" using lo by (simp only: of_nat_le_iff)
    then show ?thesis using e0 by (simp add: power_int_def)
  qed
  have hi': "real a < 2 powi (e + 1)"
  proof -
    have "real a < real (2 ^ nat (e + 1))" using hi by (simp only: of_nat_less_iff)
    then show ?thesis using e0 by (simp add: power_int_def)
  qed
  have ex: "expo \<bar>of_int k :: real\<bar> = e"
    using e0 e24 lo' hi' unfolding a(3)[symmetric] by (intro expo_char) simp_all
  have "of_int k / 2 powi (e - 23) \<in> (\<int> :: real set)"
  proof (cases "e \<le> 23")
    case True
    then have "of_int k / 2 powi (e - 23) = (of_int (k * 2 ^ nat (23 - e)) :: real)"
      by (simp add: power_int_def field_simps)
    then show ?thesis by (simp only: Ints_of_int)
  next
    case False
    then have e: "e = 24" using e24 by simp
    then have "2 ^ 24 \<le> a" using lo by simp
    then have "a = 2 ^ 24" using a(2) by simp
    then have "\<bar>k\<bar> = 2 ^ 24" using a_def False by simp
    then consider "k = 2 ^ 24" | "k = - (2 ^ 24)" by (cases "0 \<le> k") simp_all
    then show ?thesis by cases (simp_all add: e)
  qed
  moreover have "\<bar>of_int k :: real\<bar> < 2 ^ 128"
  proof -
    have "real a \<le> 2 ^ 24" using a(2) by (metis of_nat_le_iff of_nat_numeral of_nat_power)
    then show ?thesis unfolding a(3)[symmetric] by simp
  qed
  ultimately show ?thesis unfolding ex[symmetric] by (intro fl_exact)
qed

lemma fl_Ints:
  assumes "x \<in> \<int>" and "\<bar>x\<bar> \<le> 2 ^ 24"
  shows "fl x = Fin x"
proof -
  from assms(1) obtain k where k: "x = of_int k" by (rule Ints_cases)
  have "\<bar>of_int k :: real\<bar> \<le> of_int (2 ^ 24)" using assms(2) k by simp
  then have "\<bar>k\<bar> \<le> 2 ^ 24" by (simp only: of_int_abs[symmetric] of_int_le_iff)
  then show ?thesis unfolding k by (rule fl_of_int)
qed

lemma float_of_int_small: "n \<le> 2 ^ 24 \<Longrightarrow> float_of_int n = Fin (real n)"
  unfolding float_of_int_def using fl_of_int[of "int n"] by simp

subsection \<open>Operations on zero\<close>

lemma fadd_0_0 [simp]: "fadd (Fin 0) (Fin 0) = Fin 0"
  by simp

lemma fsub_0_0 [simp]: "fsub (Fin 0) (Fin 0) = Fin 0"
  by (simp add: fsub_def)

lemma fsub_self [simp]: "fsub (Fin x) (Fin x) = Fin 0"
  by (simp add: fsub_def)

lemma fmul_0_left [simp]: "fmul (Fin 0) (Fin y) = Fin 0"
  by simp

lemma fmul_0_right [simp]: "fmul (Fin x) (Fin 0) = Fin 0"
  by simp

lemma fmul_finite_0: "is_finite a \<Longrightarrow> fmul a (Fin 0) = Fin 0"
  by (cases a) simp_all

lemma fmul_0_finite: "is_finite a \<Longrightarrow> fmul (Fin 0) a = Fin 0"
  by (cases a) simp_all

lemma foldl_fadd_zeros: "\<forall>x\<in>set xs. x = Fin 0 \<Longrightarrow> foldl fadd (Fin 0) xs = Fin 0"
  by (induction xs) simp_all

lemma fsum_zeros: "\<forall>x\<in>set xs. x = Fin 0 \<Longrightarrow> fsum xs = Fin 0"
  by (cases xs) (simp_all add: fsum_def foldl_fadd_zeros)

subsection \<open>Array views\<close>

lemma length_col: "j * rows + rows \<le> length a \<Longrightarrow> length (col a rows j) = rows"
  by (simp add: col_def)

lemma nth_col: "i < rows \<Longrightarrow> j * rows + rows \<le> length a \<Longrightarrow> col a rows j ! i = a ! (j * rows + i)"
  by (simp add: col_def)

lemma col_conv_map: "j * rows + rows \<le> length a \<Longrightarrow> col a rows j = map (\<lambda>i. a ! (j * rows + i)) [0..<rows]"
  by (rule nth_equalityI) (simp_all add: length_col nth_col)

lemma col_bound: "j < cols \<Longrightarrow> j * rows + rows \<le> rows * cols" for j :: nat
proof -
  assume "j < cols"
  then have "Suc j \<le> cols" by simp
  then have "Suc j * rows \<le> cols * rows" by (rule mult_le_mono1)
  then show ?thesis by (simp add: mult.commute)
qed

lemma length_arr_add [simp]: "length (arr_add xs ys) = min (length xs) (length ys)"
  by (simp add: arr_add_def)

lemma length_arr_sub [simp]: "length (arr_sub xs ys) = min (length xs) (length ys)"
  by (simp add: arr_sub_def)

lemma length_arr_mul [simp]: "length (arr_mul xs ys) = min (length xs) (length ys)"
  by (simp add: arr_mul_def)

lemma length_arr_scalar [simp]:
  "length (arr_mul_scalar xs k) = length xs"
  "length (arr_sub_scalar xs k) = length xs" "length (scalar_mul_arr k xs) = length xs"
  by (simp_all add: arr_mul_scalar_def arr_sub_scalar_def scalar_mul_arr_def)

lemma nth_arr_add: "i < length xs \<Longrightarrow> i < length ys \<Longrightarrow> arr_add xs ys ! i = fadd (xs ! i) (ys ! i)"
  by (simp add: arr_add_def)

lemma nth_arr_sub: "i < length xs \<Longrightarrow> i < length ys \<Longrightarrow> arr_sub xs ys ! i = fsub (xs ! i) (ys ! i)"
  by (simp add: arr_sub_def)

lemma nth_arr_mul: "i < length xs \<Longrightarrow> i < length ys \<Longrightarrow> arr_mul xs ys ! i = fmul (xs ! i) (ys ! i)"
  by (simp add: arr_mul_def)

lemma nth_arr_scalar:
  "i < length xs \<Longrightarrow> arr_mul_scalar xs k ! i = fmul (xs ! i) k"
  "i < length xs \<Longrightarrow> arr_sub_scalar xs k ! i = fsub (xs ! i) k"
  "i < length xs \<Longrightarrow> scalar_mul_arr k xs ! i = fmul k (xs ! i)"
  by (simp_all add: arr_mul_scalar_def arr_sub_scalar_def scalar_mul_arr_def)

lemma length_col_add:
  "j * rows + rows \<le> length a \<Longrightarrow> length v = rows \<Longrightarrow> length (col_add a rows j v) = length a"
  by (simp add: col_add_def length_col)

lemma nth_col_add:
  assumes "j * rows + rows \<le> length a" "length v = rows" "p < length a"
  shows "col_add a rows j v ! p =
     (if j * rows \<le> p \<and> p < j * rows + rows then fadd (a ! p) (v ! (p - j * rows)) else a ! p)"
  using assms
  by (auto simp: col_add_def nth_append length_col nth_arr_add nth_col)

lemma fold_col_add_length:
  "\<forall>k\<in>set ks. k * rows + rows \<le> length a \<and> length (e k) = rows \<Longrightarrow>
   length (fold (\<lambda>k a. col_add a rows k (e k)) ks a) = length a"
  by (induction ks arbitrary: a) (simp_all add: length_col_add)

lemma in_col_iff: "i < rows \<Longrightarrow> (k * rows \<le> j * rows + i \<and> j * rows + i < k * rows + rows) = (j = k)" for i :: nat
proof
  assume i: "i < rows" and h: "k * rows \<le> j * rows + i \<and> j * rows + i < k * rows + rows"
  have "(j * rows + i) div rows = j" using i by simp
  moreover have "(j * rows + i) div rows = k"
  proof -
    from h obtain d where d: "j * rows + i = k * rows + d" "d < rows"
      by (metis add_diff_inverse_nat less_diff_conv2 nat_add_left_cancel_less not_less add.commute)
    then show ?thesis by simp
  qed
  ultimately show "j = k" by simp
qed simp

text \<open>Each column is written once, so a cell of column \<open>j\<close> ends as its old content plus
  entry \<open>i\<close> of what was added to column \<open>j\<close>.\<close>

lemma fold_col_add_nth:
  assumes "\<forall>k\<in>set ks. k * rows + rows \<le> length a \<and> length (e k) = rows"
    and "distinct ks" and "i < rows" and "j * rows + rows \<le> length a"
  shows "fold (\<lambda>k a. col_add a rows k (e k)) ks a ! (j * rows + i) =
         (if j \<in> set ks then fadd (a ! (j * rows + i)) (e j ! i) else a ! (j * rows + i))"
  using assms
proof (induction ks arbitrary: a)
  case Nil
  then show ?case by simp
next
  case (Cons k ks)
  have len: "length (col_add a rows k (e k)) = length a"
    using Cons.prems(1) by (simp add: length_col_add)
  have p: "j * rows + i < length a" using Cons.prems(3,4) by simp
  have step: "col_add a rows k (e k) ! (j * rows + i) =
       (if j = k then fadd (a ! (j * rows + i)) (e k ! i) else a ! (j * rows + i))"
    using Cons.prems(1,3) p by (simp add: nth_col_add in_col_iff)
  have "fold (\<lambda>k a. col_add a rows k (e k)) ks (col_add a rows k (e k)) ! (j * rows + i) =
        (if j \<in> set ks then fadd (col_add a rows k (e k) ! (j * rows + i)) (e j ! i)
         else col_add a rows k (e k) ! (j * rows + i))"
    using Cons.prems by (intro Cons.IH) (simp_all add: len)
  then show ?case using step Cons.prems(2) by auto
qed

subsection \<open>Accumulation in a loop\<close>

lemma fold_scatter_length:
  "length (fold (\<lambda>k a. a[idx k := f (a ! idx k) (g k)]) ks a) = length a"
  by (induction ks arbitrary: a) simp_all

text \<open>A loop that adds \<open>g k\<close> into cell \<open>idx k\<close> leaves in cell \<open>c\<close> its old content with the
  \<open>g k\<close> of the steps that hit \<open>c\<close> added in the order of the loop.\<close>

lemma fold_scatter_nth:
  "c < length a \<Longrightarrow>
   fold (\<lambda>k a. a[idx k := f (a ! idx k) (g k)]) ks a ! c =
   foldl f (a ! c) (map g (filter (\<lambda>k. idx k = c) ks))"
  by (induction ks arbitrary: a) (auto simp: nth_list_update)

lemma fold_arr_add_length:
  "\<forall>k\<in>set ks. length (g k) = length a \<Longrightarrow> length (fold (\<lambda>k a. arr_add a (g k)) ks a) = length a"
  by (induction ks arbitrary: a) simp_all

lemma fold_arr_add_nth:
  "\<forall>k\<in>set ks. length (g k) = length a \<Longrightarrow> c < length a \<Longrightarrow>
   fold (\<lambda>k a. arr_add a (g k)) ks a ! c = foldl fadd (a ! c) (map (\<lambda>k. g k ! c) ks)"
  by (induction ks arbitrary: a) (simp_all add: nth_arr_add)

lemma filter_eq_upt: "c < C \<Longrightarrow> filter (\<lambda>i. i = c) [0..<C] = [c]"
proof (induction C)
  case 0
  then show ?case by simp
next
  case (Suc C)
  show ?case
  proof (cases "c = C")
    case True
    have "filter (\<lambda>i. i = C) [0..<C] = []" by (simp add: filter_empty_conv)
    then show ?thesis using True by simp
  next
    case False
    then have "c < C" using Suc.prems by simp
    then show ?thesis using Suc.IH False by simp
  qed
qed

lemma filter_mod_block:
  assumes "c < C"
  shows "filter (\<lambda>k. k mod C = c) [n * C..<n * C + C] = [n * C + c]"
proof -
  have f: "filter (\<lambda>i. (i + n * C) mod C = c) [0..<C] = filter (\<lambda>i. i = c) [0..<C]"
    by (rule filter_cong) simp_all
  have "[n * C..<n * C + C] = [n * C..<C + n * C]" by (simp only: add.commute)
  also have "\<dots> = map (\<lambda>i. i + n * C) [0..<C]" by (simp only: map_add_upt)
  finally have "filter (\<lambda>k. k mod C = c) [n * C..<n * C + C] =
        filter (\<lambda>k. k mod C = c) (map (\<lambda>i. i + n * C) [0..<C])" by (simp only:)
  also have "\<dots> = map (\<lambda>i. i + n * C) (filter (\<lambda>i. (i + n * C) mod C = c) [0..<C])"
    by (simp only: filter_map comp_def)
  also have "\<dots> = map (\<lambda>i. i + n * C) [c]" using assms by (simp only: f filter_eq_upt)
  also have "\<dots> = [n * C + c]" by (simp only: list.map add.commute)
  finally show ?thesis .
qed

lemma filter_mod_upt:
  assumes "c < C"
  shows "filter (\<lambda>k. k mod C = c) [0..<N * C] = map (\<lambda>n. n * C + c) [0..<N]"
proof (induction N)
  case 0
  then show ?case by simp
next
  case (Suc N)
  have e: "Suc N * C = N * C + C" by simp
  have "[0..<N * C + C] = [0..<N * C] @ [N * C..<N * C + C]"
    by (rule upt_add_eq_append) simp
  then have "filter (\<lambda>k. k mod C = c) [0..<Suc N * C] =
      filter (\<lambda>k. k mod C = c) [0..<N * C] @ filter (\<lambda>k. k mod C = c) [N * C..<N * C + C]"
    by (simp only: e filter_append)
  also have "\<dots> = map (\<lambda>n. n * C + c) [0..<N] @ [N * C + c]"
    by (simp only: Suc filter_mod_block[OF assms])
  also have "\<dots> = map (\<lambda>n. n * C + c) [0..<Suc N]" by simp
  finally show ?case .
qed

subsection \<open>Flat positions and index pairs\<close>

lemma map_upt_product:
  "map f [0..<A * B] = map (\<lambda>(a, b). f (a * B + b)) (List.product [0..<A] [0..<B])"
proof (induction A)
  case 0
  then show ?case by simp
next
  case (Suc A)
  have e: "Suc A * B = A * B + B" by simp
  have "[0..<A * B + B] = [0..<A * B] @ [A * B..<A * B + B]"
    by (rule upt_add_eq_append) simp
  moreover have "[A * B..<A * B + B] = map (\<lambda>b. b + A * B) [0..<B]"
  proof -
    have "[A * B..<A * B + B] = [A * B..<B + A * B]" by (simp only: add.commute)
    then show ?thesis by (simp only: map_add_upt)
  qed
  ultimately have l: "map f [0..<Suc A * B] = map f [0..<A * B] @ map (\<lambda>b. f (b + A * B)) [0..<B]"
    by (simp only: e map_append map_map comp_def)
  have p: "List.product [0..<Suc A] [0..<B] = List.product [0..<A] [0..<B] @ map (Pair A) [0..<B]"
    by (simp add: List.product_concat_map)
  have "map (\<lambda>(a, b). f (a * B + b)) (List.product [0..<Suc A] [0..<B]) =
        map (\<lambda>(a, b). f (a * B + b)) (List.product [0..<A] [0..<B]) @ map (\<lambda>b. f (A * B + b)) [0..<B]"
    unfolding p by (simp add: comp_def)
  also have "map (\<lambda>b. f (A * B + b)) [0..<B] = map (\<lambda>b. f (b + A * B)) [0..<B]"
    by (simp only: add.commute)
  finally show ?case using l Suc by (simp only:)
qed

subsection \<open>The views of a branch\<close>

lemma views_ready:
  assumes "ready ws N C H W" "rows * cols = N * C * H * W"
  shows "X_arr (input_views ws rows cols N C H W) = map Fin (data (INPUT ws))"
    and "dY_arr (input_views ws rows cols N C H W) = map Fin (data (OUTPUT_GRAD ws))"
    and "scale_arr (input_views ws rows cols N C H W) = map Fin (data (SCALE ws))"
    and "mean_arr (input_views ws rows cols N C H W) = map Fin (take C (data (SAVED_MEAN ws)))"
    and "inv_var_arr (input_views ws rows cols N C H W) = map Fin (take C (data (SAVED_INV_VAR ws)))"
    and "NHW (input_views ws rows cols N C H W) = float_of_int (N * H * W)"
  using assms
  by (simp_all add: ready_def input_views_def ConstArrayMap_def ConstVectorArrayMap_def)

lemma division_ready:
  assumes "ready ws N C H W" "rows * cols = N * C * H * W" "c < C"
  shows "division (input_views ws rows cols N C H W) c =
           (fmul (Fin (data (SCALE ws) ! c)) (Fin (data (SAVED_INV_VAR ws) ! c)), float_of_int (N * H * W))"
    and "scaleInvVarNHW (input_views ws rows cols N C H W) c =
           fdiv (fmul (Fin (data (SCALE ws) ! c)) (Fin (data (SAVED_INV_VAR ws) ! c)))
             (float_of_int (N * H * W))"
proof -
  have "length (data (SCALE ws)) = C" "C \<le> length (data (SAVED_INV_VAR ws))"
    using assms(1) by (simp_all add: ready_def)
  then show "division (input_views ws rows cols N C H W) c =
           (fmul (Fin (data (SCALE ws) ! c)) (Fin (data (SAVED_INV_VAR ws) ! c)), float_of_int (N * H * W))"
    using assms(3) by (simp add: division_def views_ready[OF assms(1,2)])
  then show "scaleInvVarNHW (input_views ws rows cols N C H W) c =
           fdiv (fmul (Fin (data (SCALE ws) ! c)) (Fin (data (SAVED_INV_VAR ws) ! c)))
             (float_of_int (N * H * W))"
    by (simp add: scaleInvVarNHW_def)
qed

lemma block_bound:
  fixes n c N C HW :: nat
  assumes "n < N" "c < C"
  shows "(n * C + c) * HW + HW \<le> N * C * HW"
proof -
  have "n * C + c < n * C + C" using assms by simp
  also have "\<dots> = Suc n * C" by simp
  also have "\<dots> \<le> N * C" using assms by (intro mult_le_mono1) simp
  finally have "n * C + c < N * C" .
  then have "(n * C + c) * HW + HW \<le> HW * (N * C)" by (rule col_bound)
  then show ?thesis by (simp add: mult.commute)
qed

lemma idx_bound:
  fixes a b A B :: nat
  assumes "a < A" "b < B"
  shows "a * B + b < A * B"
proof -
  have "a * B + b < Suc a * B" using assms(2) by simp
  also have "\<dots> \<le> A * B" using assms(1) by (intro mult_le_mono1) simp
  finally show ?thesis .
qed

lemma col_Fin:
  assumes "j * rows + rows \<le> length xs"
  shows "col (map Fin xs) rows j = map (\<lambda>i. Fin (xs ! (j * rows + i))) [0..<rows]"
proof -
  have "col (map Fin xs) rows j = map (\<lambda>i. map Fin xs ! (j * rows + i)) [0..<rows]"
    using assms by (intro col_conv_map) simp
  also have "\<dots> = map (\<lambda>i. Fin (xs ! (j * rows + i))) [0..<rows]"
    using assms by (intro map_cong refl nth_map) simp
  finally show ?thesis .
qed

subsection \<open>The reduction loop of the NCHW branch\<close>

lemma fold_reduce_NCHW:
  "fold (reduce_NCHW v C HW) ks (b, s) =
     (fold (\<lambda>nc a. a[nc mod C := fadd (a ! (nc mod C)) (fsum (col (dY_arr v) HW nc))]) ks b,
      fold (\<lambda>nc a. a[nc mod C := fadd (a ! (nc mod C))
          (fsum (arr_mul
              (arr_mul_scalar (arr_sub_scalar (col (X_arr v) HW nc) (mean_arr v ! (nc mod C))) (inv_var_arr v ! (nc mod C)))
              (col (dY_arr v) HW nc)))]) ks s)"
  by (induction ks arbitrary: b s) (simp_all add: reduce_NCHW_def Let_def)

lemma block_terms:
  assumes "j * rows + rows \<le> length xs" "j * rows + rows \<le> length ys"
  shows "arr_mul (arr_mul_scalar (arr_sub_scalar (col (map Fin xs) rows j) m) k) (col (map Fin ys) rows j) =
         map (\<lambda>i. fmul (fmul (fsub (Fin (xs ! (j * rows + i))) m) k) (Fin (ys ! (j * rows + i)))) [0..<rows]"
  unfolding col_Fin[OF assms(1)] col_Fin[OF assms(2)]
  by (intro nth_equalityI) (simp_all add: nth_arr_mul nth_arr_scalar)

lemma run_NCHW_accumulators:
  assumes r: "ready ws N C H W"
  shows "data (BIAS_GRAD (fst (run_NCHW ws N C H W))) =
           fold (\<lambda>nc a. a[nc mod C := fadd (a ! (nc mod C))
              (fsum (col (map Fin (data (OUTPUT_GRAD ws))) (H * W) nc))]) [0..<N * C] (replicate C (Fin 0))"
    and "data (SCALE_GRAD (fst (run_NCHW ws N C H W))) =
           fold (\<lambda>nc a. a[nc mod C := fadd (a ! (nc mod C))
              (fsum (arr_mul
                 (arr_mul_scalar (arr_sub_scalar (col (map Fin (data (INPUT ws))) (H * W) nc)
                     (map Fin (take C (data (SAVED_MEAN ws))) ! (nc mod C)))
                   (map Fin (take C (data (SAVED_INV_VAR ws))) ! (nc mod C)))
                 (col (map Fin (data (OUTPUT_GRAD ws))) (H * W) nc)))]) [0..<N * C] (replicate C (Fin 0))"
proof -
  have rc: "H * W * (N * C) = N * C * H * W" by simp
  note vs = views_ready[OF r rc]
  show "data (BIAS_GRAD (fst (run_NCHW ws N C H W))) =
           fold (\<lambda>nc a. a[nc mod C := fadd (a ! (nc mod C))
              (fsum (col (map Fin (data (OUTPUT_GRAD ws))) (H * W) nc))]) [0..<N * C] (replicate C (Fin 0))"
    using r by (simp add: run_NCHW_def write_back_def Let_def fold_reduce_NCHW vs VectorArrayMap_def ready_def
        split: prod.splits)
  show "data (SCALE_GRAD (fst (run_NCHW ws N C H W))) =
           fold (\<lambda>nc a. a[nc mod C := fadd (a ! (nc mod C))
              (fsum (arr_mul
                 (arr_mul_scalar (arr_sub_scalar (col (map Fin (data (INPUT ws))) (H * W) nc)
                     (map Fin (take C (data (SAVED_MEAN ws))) ! (nc mod C)))
                   (map Fin (take C (data (SAVED_INV_VAR ws))) ! (nc mod C)))
                 (col (map Fin (data (OUTPUT_GRAD ws))) (H * W) nc)))]) [0..<N * C] (replicate C (Fin 0))"
    using r by (simp add: run_NCHW_def write_back_def Let_def fold_reduce_NCHW vs VectorArrayMap_def ready_def
        split: prod.splits)
qed

lemma run_NCHW_lengths:
  assumes r: "ready ws N C H W"
  shows "length (data (BIAS_GRAD (fst (run_NCHW ws N C H W)))) = C"
    and "length (data (SCALE_GRAD (fst (run_NCHW ws N C H W)))) = C"
proof -
  show "length (data (BIAS_GRAD (fst (run_NCHW ws N C H W)))) = C"
    unfolding run_NCHW_accumulators(1)[OF r]
    by (rule trans[OF fold_scatter_length[where idx = "\<lambda>nc. nc mod C" and f = fadd]]) simp
  show "length (data (SCALE_GRAD (fst (run_NCHW ws N C H W)))) = C"
    unfolding run_NCHW_accumulators(2)[OF r]
    by (rule trans[OF fold_scatter_length[where idx = "\<lambda>nc. nc mod C" and f = fadd]]) simp
qed

lemma run_NCHW_bias:
  assumes r: "ready ws N C H W" and c: "c < C"
  shows "data (BIAS_GRAD (fst (run_NCHW ws N C H W))) ! c =
         foldl fadd (Fin 0)
           (map (\<lambda>n. fsum (map (\<lambda>i. Fin (data (OUTPUT_GRAD ws) ! ((n * C + c) * (H * W) + i))) [0..<H * W]))
              [0..<N])"
proof -
  let ?g = "\<lambda>nc. fsum (col (map Fin (data (OUTPUT_GRAD ws))) (H * W) nc)"
  have len: "length (data (OUTPUT_GRAD ws)) = N * C * (H * W)"
    using r by (simp add: ready_def mult.assoc)
  have "data (BIAS_GRAD (fst (run_NCHW ws N C H W))) ! c =
        foldl fadd (replicate C (Fin 0) ! c) (map ?g (filter (\<lambda>k. k mod C = c) [0..<N * C]))"
    unfolding run_NCHW_accumulators(1)[OF r] using c by (intro fold_scatter_nth) simp
  also have "\<dots> = foldl fadd (Fin 0) (map (\<lambda>n. ?g (n * C + c)) [0..<N])"
    using c by (simp only: filter_mod_upt[OF c] nth_replicate map_map comp_def)
  also have "map (\<lambda>n. ?g (n * C + c)) [0..<N] =
      map (\<lambda>n. fsum (map (\<lambda>i. Fin (data (OUTPUT_GRAD ws) ! ((n * C + c) * (H * W) + i))) [0..<H * W])) [0..<N]"
  proof (rule map_cong)
    fix n assume "n \<in> set [0..<N]"
    then have "n < N" by simp
    then have "(n * C + c) * (H * W) + H * W \<le> length (data (OUTPUT_GRAD ws))"
      unfolding len using c by (rule block_bound)
    then show "?g (n * C + c) =
        fsum (map (\<lambda>i. Fin (data (OUTPUT_GRAD ws) ! ((n * C + c) * (H * W) + i))) [0..<H * W])"
      by (simp only: col_Fin)
  qed simp
  finally show ?thesis .
qed

lemma run_NCHW_scale:
  assumes r: "ready ws N C H W" and c: "c < C"
  shows "data (SCALE_GRAD (fst (run_NCHW ws N C H W))) ! c =
         foldl fadd (Fin 0)
           (map (\<lambda>n. fsum (map (\<lambda>i.
                fmul (fmul (fsub (Fin (data (INPUT ws) ! ((n * C + c) * (H * W) + i)))
                             (Fin (data (SAVED_MEAN ws) ! c)))
                        (Fin (data (SAVED_INV_VAR ws) ! c)))
                  (Fin (data (OUTPUT_GRAD ws) ! ((n * C + c) * (H * W) + i)))) [0..<H * W]))
              [0..<N])"
proof -
  let ?g = "\<lambda>nc. fsum (arr_mul
                 (arr_mul_scalar (arr_sub_scalar (col (map Fin (data (INPUT ws))) (H * W) nc)
                     (map Fin (take C (data (SAVED_MEAN ws))) ! (nc mod C)))
                   (map Fin (take C (data (SAVED_INV_VAR ws))) ! (nc mod C)))
                 (col (map Fin (data (OUTPUT_GRAD ws))) (H * W) nc))"
  have len: "length (data (OUTPUT_GRAD ws)) = N * C * (H * W)" "length (data (INPUT ws)) = N * C * (H * W)"
    "C \<le> length (data (SAVED_MEAN ws))" "C \<le> length (data (SAVED_INV_VAR ws))"
    using r by (simp_all add: ready_def mult.assoc)
  have "data (SCALE_GRAD (fst (run_NCHW ws N C H W))) ! c =
        foldl fadd (replicate C (Fin 0) ! c) (map ?g (filter (\<lambda>k. k mod C = c) [0..<N * C]))"
    unfolding run_NCHW_accumulators(2)[OF r] using c by (intro fold_scatter_nth) simp
  also have "\<dots> = foldl fadd (Fin 0) (map (\<lambda>n. ?g (n * C + c)) [0..<N])"
    using c by (simp only: filter_mod_upt[OF c] nth_replicate map_map comp_def)
  also have "map (\<lambda>n. ?g (n * C + c)) [0..<N] =
      map (\<lambda>n. fsum (map (\<lambda>i.
                fmul (fmul (fsub (Fin (data (INPUT ws) ! ((n * C + c) * (H * W) + i)))
                             (Fin (data (SAVED_MEAN ws) ! c)))
                        (Fin (data (SAVED_INV_VAR ws) ! c)))
                  (Fin (data (OUTPUT_GRAD ws) ! ((n * C + c) * (H * W) + i)))) [0..<H * W])) [0..<N]"
  proof (rule map_cong)
    fix n assume "n \<in> set [0..<N]"
    then have "n < N" by simp
    then have b: "(n * C + c) * (H * W) + H * W \<le> N * C * (H * W)" using c by (rule block_bound)
    have m: "(n * C + c) mod C = c" using c by simp
    have mv: "map Fin (take C (data (SAVED_MEAN ws))) ! c = Fin (data (SAVED_MEAN ws) ! c)"
      "map Fin (take C (data (SAVED_INV_VAR ws))) ! c = Fin (data (SAVED_INV_VAR ws) ! c)"
      using c len by simp_all
    show "?g (n * C + c) = fsum (map (\<lambda>i.
                fmul (fmul (fsub (Fin (data (INPUT ws) ! ((n * C + c) * (H * W) + i)))
                             (Fin (data (SAVED_MEAN ws) ! c)))
                        (Fin (data (SAVED_INV_VAR ws) ! c)))
                  (Fin (data (OUTPUT_GRAD ws) ! ((n * C + c) * (H * W) + i)))) [0..<H * W])"
      unfolding m mv by (subst block_terms) (simp_all only: len b)
  qed simp
  finally show ?thesis .
qed

subsection \<open>The propagation loop of the NCHW branch\<close>

lemma fold_propagate_NCHW:
  "fold (propagate_NCHW v N C H W B S) ks (x, d) =
     (fold (\<lambda>nc a. col_add a (H * W) nc
        (scalar_mul_arr (scaleInvVarNHW v (nc mod C))
          (arr_sub
            (arr_sub_scalar
               (arr_mul_scalar
                  (arr_mul_scalar (arr_mul_scalar (col (dY_arr v) (H * W) nc) (float_of_int N))
                     (float_of_int H))
                  (float_of_int W))
               (B ! (nc mod C)))
            (arr_mul_scalar
               (arr_mul_scalar (arr_sub_scalar (col (X_arr v) (H * W) nc) (mean_arr v ! (nc mod C))) (S ! (nc mod C)))
               (inv_var_arr v ! (nc mod C)))))) ks x,
      d @ map (\<lambda>nc. division v (nc mod C)) ks)"
  by (induction ks arbitrary: x d) (simp_all add: propagate_NCHW_def Let_def)

lemma run_NCHW_dX_fold:
  assumes r: "ready ws N C H W"
  shows "data (INPUT_GRAD (fst (run_NCHW ws N C H W))) =
     fold (\<lambda>nc a. col_add a (H * W) nc
        (scalar_mul_arr (scaleInvVarNHW (input_views ws (H * W) (N * C) N C H W) (nc mod C))
          (arr_sub
            (arr_sub_scalar
               (arr_mul_scalar
                  (arr_mul_scalar (arr_mul_scalar (col (map Fin (data (OUTPUT_GRAD ws))) (H * W) nc) (float_of_int N))
                     (float_of_int H))
                  (float_of_int W))
               (data (BIAS_GRAD (fst (run_NCHW ws N C H W))) ! (nc mod C)))
            (arr_mul_scalar
               (arr_mul_scalar (arr_sub_scalar (col (map Fin (data (INPUT ws))) (H * W) nc)
                   (map Fin (take C (data (SAVED_MEAN ws))) ! (nc mod C)))
                 (data (SCALE_GRAD (fst (run_NCHW ws N C H W))) ! (nc mod C)))
               (map Fin (take C (data (SAVED_INV_VAR ws))) ! (nc mod C))))))
       [0..<N * C] (replicate (N * C * H * W) (Fin 0))"
    and "snd (run_NCHW ws N C H W) =
       map (\<lambda>nc. division (input_views ws (H * W) (N * C) N C H W) (nc mod C)) [0..<N * C]"
proof -
  have rc: "H * W * (N * C) = N * C * H * W" by simp
  note vs = views_ready[OF r rc]
  show "data (INPUT_GRAD (fst (run_NCHW ws N C H W))) =
     fold (\<lambda>nc a. col_add a (H * W) nc
        (scalar_mul_arr (scaleInvVarNHW (input_views ws (H * W) (N * C) N C H W) (nc mod C))
          (arr_sub
            (arr_sub_scalar
               (arr_mul_scalar
                  (arr_mul_scalar (arr_mul_scalar (col (map Fin (data (OUTPUT_GRAD ws))) (H * W) nc) (float_of_int N))
                     (float_of_int H))
                  (float_of_int W))
               (data (BIAS_GRAD (fst (run_NCHW ws N C H W))) ! (nc mod C)))
            (arr_mul_scalar
               (arr_mul_scalar (arr_sub_scalar (col (map Fin (data (INPUT ws))) (H * W) nc)
                   (map Fin (take C (data (SAVED_MEAN ws))) ! (nc mod C)))
                 (data (SCALE_GRAD (fst (run_NCHW ws N C H W))) ! (nc mod C)))
               (map Fin (take C (data (SAVED_INV_VAR ws))) ! (nc mod C))))))
       [0..<N * C] (replicate (N * C * H * W) (Fin 0))"
    using r rc
    by (simp add: run_NCHW_def write_back_def Let_def fold_reduce_NCHW fold_propagate_NCHW ready_def ArrayMap_def
        setZero_def vs split: prod.splits)
  show "snd (run_NCHW ws N C H W) =
       map (\<lambda>nc. division (input_views ws (H * W) (N * C) N C H W) (nc mod C)) [0..<N * C]"
    by (simp add: run_NCHW_def write_back_def Let_def fold_reduce_NCHW fold_propagate_NCHW split: prod.splits)
qed

lemma run_NCHW_dX_length:
  assumes r: "ready ws N C H W"
  shows "length (data (INPUT_GRAD (fst (run_NCHW ws N C H W)))) = N * C * H * W"
proof -
  have rc: "H * W * (N * C) = N * C * H * W" by simp
  have len: "length (data (OUTPUT_GRAD ws)) = N * C * H * W" "length (data (INPUT ws)) = N * C * H * W"
    using r by (simp_all add: ready_def)
  have cb: "k * (H * W) + H * W \<le> N * C * H * W" if "k < N * C" for k
    using col_bound[OF that, of "H * W"] by (simp only: rc)
  show ?thesis
    unfolding run_NCHW_dX_fold(1)[OF r]
    by (subst fold_col_add_length) (auto simp: len length_col cb)
qed

lemma run_NCHW_dX:
  assumes r: "ready ws N C H W" and n: "n < N" and c: "c < C" and i: "i < H * W"
  shows "data (INPUT_GRAD (fst (run_NCHW ws N C H W))) ! ((n * C + c) * (H * W) + i) =
     fadd (Fin 0)
       (fmul (fdiv (fmul (Fin (data (SCALE ws) ! c)) (Fin (data (SAVED_INV_VAR ws) ! c)))
                (float_of_int (N * H * W)))
         (fsub
           (fsub
              (fmul (fmul (fmul (Fin (data (OUTPUT_GRAD ws) ! ((n * C + c) * (H * W) + i))) (float_of_int N))
                   (float_of_int H)) (float_of_int W))
              (data (BIAS_GRAD (fst (run_NCHW ws N C H W))) ! c))
           (fmul (fmul (fsub (Fin (data (INPUT ws) ! ((n * C + c) * (H * W) + i)))
                           (Fin (data (SAVED_MEAN ws) ! c)))
                    (data (SCALE_GRAD (fst (run_NCHW ws N C H W))) ! c))
              (Fin (data (SAVED_INV_VAR ws) ! c)))))"
proof -
  have rc: "H * W * (N * C) = N * C * H * W" by simp
  have sIV: "scaleInvVarNHW (input_views ws (H * W) (N * C) N C H W) c =
      fdiv (fmul (Fin (data (SCALE ws) ! c)) (Fin (data (SAVED_INV_VAR ws) ! c))) (float_of_int (N * H * W))"
    by (rule division_ready(2)[OF r rc c])
  have len: "length (data (OUTPUT_GRAD ws)) = N * C * H * W" "length (data (INPUT ws)) = N * C * H * W"
    "C \<le> length (data (SAVED_MEAN ws))" "C \<le> length (data (SAVED_INV_VAR ws))"
    using r by (simp_all add: ready_def)
  have cb: "k * (H * W) + H * W \<le> N * C * H * W" if "k < N * C" for k
    using col_bound[OF that, of "H * W"] by (simp only: rc)
  have nc: "n * C + c < N * C" using n c by (rule idx_bound)
  have m: "(n * C + c) mod C = c" using c by simp
  have idx: "(n * C + c) * (H * W) + i < N * C * H * W" using cb[OF nc] i by simp
  show ?thesis
    unfolding run_NCHW_dX_fold(1)[OF r]
    apply (subst fold_col_add_nth)
    using i nc c idx
        apply (auto simp: len length_col cb m sIV nth_arr_scalar nth_arr_sub nth_col)
    done
qed

lemma run_NCHW_divisions:
  assumes r: "ready ws N C H W"
  shows "snd (run_NCHW ws N C H W) =
     map (\<lambda>nc. (fmul (Fin (data (SCALE ws) ! (nc mod C))) (Fin (data (SAVED_INV_VAR ws) ! (nc mod C))),
                float_of_int (N * H * W))) [0..<N * C]"
proof -
  have rc: "H * W * (N * C) = N * C * H * W" by simp
  show ?thesis
    unfolding run_NCHW_dX_fold(2)[OF r]
  proof (rule map_cong)
    fix nc assume "nc \<in> set [0..<N * C]"
    then have "0 < C" by (cases C) simp_all
    then have "nc mod C < C" by simp
    then show "division (input_views ws (H * W) (N * C) N C H W) (nc mod C) =
       (fmul (Fin (data (SCALE ws) ! (nc mod C))) (Fin (data (SAVED_INV_VAR ws) ! (nc mod C))),
         float_of_int (N * H * W))"
      by (rule division_ready(1)[OF r rc])
  qed simp
qed

subsection \<open>The loop of the NHWC branch\<close>

lemma fold_step_NHWC:
  "fold (step_NHWC v N C H W) ks (b, s, x, d) =
     (fold (\<lambda>k a. arr_add a (col (dY_arr v) C k)) ks b,
      fold (\<lambda>k a. arr_add a
           (arr_mul (arr_mul (arr_sub (col (X_arr v) C k) (mean_arr v)) (inv_var_arr v)) (col (dY_arr v) C k))) ks s,
      fold (\<lambda>k a. col_add a C k
           (arr_mul (map (scaleInvVarNHW v) [0..<C])
             (arr_sub
               (arr_sub
                 (arr_mul_scalar
                    (arr_mul_scalar (arr_mul_scalar (col (dY_arr v) C k) (float_of_int N))
                       (float_of_int H))
                    (float_of_int W))
                 (rowwise_sum (dY_arr v) C (N * H * W)))
               (arr_mul (arr_mul (col (colwise_sub (X_arr v) C (mean_arr v)) C k)
                    (arr_mul (inv_var_arr v) (inv_var_arr v)))
                  (rowwise_sum (arr_mul (dY_arr v) (colwise_sub (X_arr v) C (mean_arr v))) C (N * H * W)))))) ks x,
      d @ concat (map (\<lambda>k. map (division v) [0..<C]) ks))"
  by (induction ks arbitrary: b s x d) (simp_all add: step_NHWC_def Let_def)

lemma length_rowwise_sum [simp]: "length (rowwise_sum a rows cols) = rows"
  by (simp add: rowwise_sum_def)

lemma nth_rowwise_sum:
  assumes "r < rows" "length a = rows * cols"
  shows "rowwise_sum a rows cols ! r = fsum (map (\<lambda>j. a ! (j * rows + r)) [0..<cols])"
proof -
  have m: "map (\<lambda>j. col a rows j ! r) [0..<cols] = map (\<lambda>j. a ! (j * rows + r)) [0..<cols]"
    using assms by (intro map_cong refl nth_col) (simp_all add: col_bound)
  have "rowwise_sum a rows cols ! r = fsum (map (\<lambda>j. col a rows j ! r) [0..<cols])"
    using assms(1) by (simp add: rowwise_sum_def)
  then show ?thesis by (simp only: m)
qed

lemma length_colwise_sub [simp]: "length (colwise_sub a rows v) = length a"
  by (simp add: colwise_sub_def)

lemma nth_colwise_sub: "k < length a \<Longrightarrow> colwise_sub a rows v ! k = fsub (a ! k) (v ! (k mod rows))"
  by (simp add: colwise_sub_def)

lemma pos_bound:
  fixes j c C M :: nat
  assumes "j < M" "c < C"
  shows "j * C + c < C * M"
proof -
  have "j * C + C \<le> C * M" using assms(1) by (rule col_bound)
  then show ?thesis using assms(2) by simp
qed

lemma run_NHWC_folds:
  assumes r: "ready ws N C H W"
  shows "data (BIAS_GRAD (fst (run_NHWC ws N C H W))) =
           fold (\<lambda>k a. arr_add a (col (map Fin (data (OUTPUT_GRAD ws))) C k)) [0..<N * H * W]
             (replicate C (Fin 0))"
    and "data (SCALE_GRAD (fst (run_NHWC ws N C H W))) =
           fold (\<lambda>k a. arr_add a
             (arr_mul (arr_mul (arr_sub (col (map Fin (data (INPUT ws))) C k) (map Fin (take C (data (SAVED_MEAN ws)))))
                 (map Fin (take C (data (SAVED_INV_VAR ws))))) (col (map Fin (data (OUTPUT_GRAD ws))) C k)))
             [0..<N * H * W] (replicate C (Fin 0))"
    and "data (INPUT_GRAD (fst (run_NHWC ws N C H W))) =
           fold (\<lambda>k a. col_add a C k
             (arr_mul (map (scaleInvVarNHW (input_views ws C (N * H * W) N C H W)) [0..<C])
               (arr_sub
                 (arr_sub
                   (arr_mul_scalar
                      (arr_mul_scalar (arr_mul_scalar (col (map Fin (data (OUTPUT_GRAD ws))) C k) (float_of_int N))
                         (float_of_int H))
                      (float_of_int W))
                   (rowwise_sum (map Fin (data (OUTPUT_GRAD ws))) C (N * H * W)))
                 (arr_mul (arr_mul (col (colwise_sub (map Fin (data (INPUT ws))) C (map Fin (take C (data (SAVED_MEAN ws))))) C k)
                      (arr_mul (map Fin (take C (data (SAVED_INV_VAR ws)))) (map Fin (take C (data (SAVED_INV_VAR ws))))))
                    (rowwise_sum (arr_mul (map Fin (data (OUTPUT_GRAD ws)))
                        (colwise_sub (map Fin (data (INPUT ws))) C (map Fin (take C (data (SAVED_MEAN ws))))))
                       C (N * H * W))))))
             [0..<N * H * W] (replicate (N * C * H * W) (Fin 0))"
    and "snd (run_NHWC ws N C H W) =
           concat (map (\<lambda>k. map (division (input_views ws C (N * H * W) N C H W)) [0..<C]) [0..<N * H * W])"
proof -
  have rc: "C * (N * H * W) = N * C * H * W" by simp
  note vs = views_ready[OF r rc]
  show "data (BIAS_GRAD (fst (run_NHWC ws N C H W))) =
           fold (\<lambda>k a. arr_add a (col (map Fin (data (OUTPUT_GRAD ws))) C k)) [0..<N * H * W]
             (replicate C (Fin 0))"
    using r by (simp add: run_NHWC_def write_back_def Let_def fold_step_NHWC vs VectorArrayMap_def ready_def
        split: prod.splits)
  show "data (SCALE_GRAD (fst (run_NHWC ws N C H W))) =
           fold (\<lambda>k a. arr_add a
             (arr_mul (arr_mul (arr_sub (col (map Fin (data (INPUT ws))) C k) (map Fin (take C (data (SAVED_MEAN ws)))))
                 (map Fin (take C (data (SAVED_INV_VAR ws))))) (col (map Fin (data (OUTPUT_GRAD ws))) C k)))
             [0..<N * H * W] (replicate C (Fin 0))"
    using r by (simp add: run_NHWC_def write_back_def Let_def fold_step_NHWC vs VectorArrayMap_def ready_def
        split: prod.splits)
  show "data (INPUT_GRAD (fst (run_NHWC ws N C H W))) =
           fold (\<lambda>k a. col_add a C k
             (arr_mul (map (scaleInvVarNHW (input_views ws C (N * H * W) N C H W)) [0..<C])
               (arr_sub
                 (arr_sub
                   (arr_mul_scalar
                      (arr_mul_scalar (arr_mul_scalar (col (map Fin (data (OUTPUT_GRAD ws))) C k) (float_of_int N))
                         (float_of_int H))
                      (float_of_int W))
                   (rowwise_sum (map Fin (data (OUTPUT_GRAD ws))) C (N * H * W)))
                 (arr_mul (arr_mul (col (colwise_sub (map Fin (data (INPUT ws))) C (map Fin (take C (data (SAVED_MEAN ws))))) C k)
                      (arr_mul (map Fin (take C (data (SAVED_INV_VAR ws)))) (map Fin (take C (data (SAVED_INV_VAR ws))))))
                    (rowwise_sum (arr_mul (map Fin (data (OUTPUT_GRAD ws)))
                        (colwise_sub (map Fin (data (INPUT ws))) C (map Fin (take C (data (SAVED_MEAN ws))))))
                       C (N * H * W))))))
             [0..<N * H * W] (replicate (N * C * H * W) (Fin 0))"
    using r rc by (simp add: run_NHWC_def write_back_def Let_def fold_step_NHWC vs ready_def ArrayMap_def setZero_def
        split: prod.splits)
  show "snd (run_NHWC ws N C H W) =
           concat (map (\<lambda>k. map (division (input_views ws C (N * H * W) N C H W)) [0..<C]) [0..<N * H * W])"
    by (simp add: run_NHWC_def write_back_def Let_def fold_step_NHWC split: prod.splits)
qed

lemma run_NHWC_bias:
  assumes r: "ready ws N C H W" and c: "c < C"
  shows "data (BIAS_GRAD (fst (run_NHWC ws N C H W))) ! c =
         foldl fadd (Fin 0) (map (\<lambda>j. Fin (data (OUTPUT_GRAD ws) ! (j * C + c))) [0..<N * H * W])"
proof -
  have len: "length (data (OUTPUT_GRAD ws)) = C * (N * H * W)" using r by (simp add: ready_def)
  have cl: "length (col (map Fin (data (OUTPUT_GRAD ws))) C k) = C" if "k < N * H * W" for k
    using that by (simp add: length_col len col_bound)
  have "data (BIAS_GRAD (fst (run_NHWC ws N C H W))) ! c =
        foldl fadd (replicate C (Fin 0) ! c)
          (map (\<lambda>k. col (map Fin (data (OUTPUT_GRAD ws))) C k ! c) [0..<N * H * W])"
    unfolding run_NHWC_folds(1)[OF r] using c by (intro fold_arr_add_nth) (simp_all add: cl)
  also have "map (\<lambda>k. col (map Fin (data (OUTPUT_GRAD ws))) C k ! c) [0..<N * H * W] =
        map (\<lambda>j. Fin (data (OUTPUT_GRAD ws) ! (j * C + c))) [0..<N * H * W]"
    using c by (intro map_cong refl) (simp add: nth_col len col_bound pos_bound)
  finally show ?thesis using c by simp
qed

lemma run_NHWC_scale:
  assumes r: "ready ws N C H W" and c: "c < C"
  shows "data (SCALE_GRAD (fst (run_NHWC ws N C H W))) ! c =
         foldl fadd (Fin 0) (map (\<lambda>j.
            fmul (fmul (fsub (Fin (data (INPUT ws) ! (j * C + c))) (Fin (data (SAVED_MEAN ws) ! c)))
                    (Fin (data (SAVED_INV_VAR ws) ! c)))
              (Fin (data (OUTPUT_GRAD ws) ! (j * C + c)))) [0..<N * H * W])"
proof -
  let ?g = "\<lambda>k. arr_mul (arr_mul (arr_sub (col (map Fin (data (INPUT ws))) C k) (map Fin (take C (data (SAVED_MEAN ws)))))
                 (map Fin (take C (data (SAVED_INV_VAR ws))))) (col (map Fin (data (OUTPUT_GRAD ws))) C k)"
  have len: "length (data (OUTPUT_GRAD ws)) = C * (N * H * W)" "length (data (INPUT ws)) = C * (N * H * W)"
     "C \<le> length (data (SAVED_MEAN ws))" "C \<le> length (data (SAVED_INV_VAR ws))"
    using r by (simp_all add: ready_def)
  have cl: "length (col (map Fin (data (OUTPUT_GRAD ws))) C k) = C"
    "length (col (map Fin (data (INPUT ws))) C k) = C"
    if "k < N * H * W" for k
    using that by (simp_all add: length_col len col_bound)
  have "data (SCALE_GRAD (fst (run_NHWC ws N C H W))) ! c =
        foldl fadd (replicate C (Fin 0) ! c) (map (\<lambda>k. ?g k ! c) [0..<N * H * W])"
    unfolding run_NHWC_folds(2)[OF r] using c by (intro fold_arr_add_nth) (simp_all add: cl len)
  also have "map (\<lambda>k. ?g k ! c) [0..<N * H * W] = map (\<lambda>j.
            fmul (fmul (fsub (Fin (data (INPUT ws) ! (j * C + c))) (Fin (data (SAVED_MEAN ws) ! c)))
                    (Fin (data (SAVED_INV_VAR ws) ! c)))
              (Fin (data (OUTPUT_GRAD ws) ! (j * C + c)))) [0..<N * H * W]"
    using c by (intro map_cong refl) (simp add: nth_arr_mul nth_arr_sub cl len nth_col col_bound pos_bound)
  finally show ?thesis using c by simp
qed

lemma run_NHWC_lengths:
  assumes r: "ready ws N C H W"
  shows "length (data (BIAS_GRAD (fst (run_NHWC ws N C H W)))) = C"
    and "length (data (SCALE_GRAD (fst (run_NHWC ws N C H W)))) = C"
    and "length (data (INPUT_GRAD (fst (run_NHWC ws N C H W)))) = N * C * H * W"
proof -
  have rc: "C * (N * H * W) = N * C * H * W" by simp
  have len: "length (data (OUTPUT_GRAD ws)) = C * (N * H * W)" "length (data (INPUT ws)) = C * (N * H * W)"
     "C \<le> length (data (SAVED_MEAN ws))" "C \<le> length (data (SAVED_INV_VAR ws))"
    using r by (simp_all add: ready_def)
  have cl: "length (col (map Fin (data (OUTPUT_GRAD ws))) C k) = C"
    "length (col (map Fin (data (INPUT ws))) C k) = C"
    if "k < N * H * W" for k
    using that by (simp_all add: length_col len col_bound)
  have cb: "k * C + C \<le> N * C * H * W" if "k < N * H * W" for k
    using col_bound[OF that, of C] by (simp only: rc)
  show "length (data (BIAS_GRAD (fst (run_NHWC ws N C H W)))) = C"
    unfolding run_NHWC_folds(1)[OF r] by (subst fold_arr_add_length) (simp_all add: cl)
  show "length (data (SCALE_GRAD (fst (run_NHWC ws N C H W)))) = C"
    unfolding run_NHWC_folds(2)[OF r] by (subst fold_arr_add_length) (simp_all add: cl len)
  show "length (data (INPUT_GRAD (fst (run_NHWC ws N C H W)))) = N * C * H * W"
    unfolding run_NHWC_folds(3)[OF r]
    by (subst fold_col_add_length) (auto simp: len cl length_col cb col_bound)
qed

lemma run_NHWC_dX:
  assumes r: "ready ws N C H W" and j: "j < N * H * W" and c: "c < C"
  shows "data (INPUT_GRAD (fst (run_NHWC ws N C H W))) ! (j * C + c) =
     fadd (Fin 0)
       (fmul (fdiv (fmul (Fin (data (SCALE ws) ! c)) (Fin (data (SAVED_INV_VAR ws) ! c)))
                (float_of_int (N * H * W)))
         (fsub
           (fsub
              (fmul (fmul (fmul (Fin (data (OUTPUT_GRAD ws) ! (j * C + c))) (float_of_int N))
                   (float_of_int H)) (float_of_int W))
              (fsum (map (\<lambda>k. Fin (data (OUTPUT_GRAD ws) ! (k * C + c))) [0..<N * H * W])))
           (fmul (fmul (fsub (Fin (data (INPUT ws) ! (j * C + c))) (Fin (data (SAVED_MEAN ws) ! c)))
                    (fmul (Fin (data (SAVED_INV_VAR ws) ! c)) (Fin (data (SAVED_INV_VAR ws) ! c))))
              (fsum (map (\<lambda>k. fmul (Fin (data (OUTPUT_GRAD ws) ! (k * C + c)))
                     (fsub (Fin (data (INPUT ws) ! (k * C + c))) (Fin (data (SAVED_MEAN ws) ! c))))
                 [0..<N * H * W])))))"
proof -
  have rc: "C * (N * H * W) = N * C * H * W" by simp
  have len: "length (data (OUTPUT_GRAD ws)) = N * C * H * W" "length (data (INPUT ws)) = N * C * H * W"
     "C \<le> length (data (SAVED_MEAN ws))" "C \<le> length (data (SAVED_INV_VAR ws))"
    using r by (simp_all add: ready_def)
  have len': "length (map Fin (data (OUTPUT_GRAD ws))) = C * (N * H * W)"
    "length (map Fin (data (INPUT ws))) = C * (N * H * W)"
    using len rc by simp_all
  have cb: "k * C + C \<le> N * C * H * W" if "k < N * H * W" for k
    using col_bound[OF that, of C] by (simp only: rc)
  have pb: "k * C + c < N * C * H * W" if "k < N * H * W" for k
    using pos_bound[OF that c] by (simp only: rc)
  have md: "(k * C + c) mod C = c" for k using c by simp
  have sIV: "scaleInvVarNHW (input_views ws C (N * H * W) N C H W) c =
      fdiv (fmul (Fin (data (SCALE ws) ! c)) (Fin (data (SAVED_INV_VAR ws) ! c))) (float_of_int (N * H * W))"
    by (rule division_ready(2)[OF r rc c])
  have rs1: "rowwise_sum (map Fin (data (OUTPUT_GRAD ws))) C (N * H * W) ! c =
      fsum (map (\<lambda>k. Fin (data (OUTPUT_GRAD ws) ! (k * C + c))) [0..<N * H * W])"
  proof -
    have "rowwise_sum (map Fin (data (OUTPUT_GRAD ws))) C (N * H * W) ! c =
      fsum (map (\<lambda>k. map Fin (data (OUTPUT_GRAD ws)) ! (k * C + c)) [0..<N * H * W])"
      using c len'(1) by (rule nth_rowwise_sum)
    also have "map (\<lambda>k. map Fin (data (OUTPUT_GRAD ws)) ! (k * C + c)) [0..<N * H * W] =
        map (\<lambda>k. Fin (data (OUTPUT_GRAD ws) ! (k * C + c))) [0..<N * H * W]"
      by (intro map_cong refl) (simp add: len pb)
    finally show ?thesis .
  qed
  have rs2: "rowwise_sum (arr_mul (map Fin (data (OUTPUT_GRAD ws)))
                 (colwise_sub (map Fin (data (INPUT ws))) C (map Fin (take C (data (SAVED_MEAN ws))))))
                     C (N * H * W) ! c =
      fsum (map (\<lambda>k. fmul (Fin (data (OUTPUT_GRAD ws) ! (k * C + c)))
                     (fsub (Fin (data (INPUT ws) ! (k * C + c))) (Fin (data (SAVED_MEAN ws) ! c))))
                 [0..<N * H * W])"
  proof -
    let ?a = "arr_mul (map Fin (data (OUTPUT_GRAD ws)))
                 (colwise_sub (map Fin (data (INPUT ws))) C (map Fin (take C (data (SAVED_MEAN ws)))))"
    have "rowwise_sum ?a C (N * H * W) ! c = fsum (map (\<lambda>k. ?a ! (k * C + c)) [0..<N * H * W])"
      using c by (rule nth_rowwise_sum) (simp add: len rc)
    also have "map (\<lambda>k. ?a ! (k * C + c)) [0..<N * H * W] =
        map (\<lambda>k. fmul (Fin (data (OUTPUT_GRAD ws) ! (k * C + c)))
                     (fsub (Fin (data (INPUT ws) ! (k * C + c))) (Fin (data (SAVED_MEAN ws) ! c))))
                 [0..<N * H * W]"
      using c by (intro map_cong refl) (simp add: nth_arr_mul nth_colwise_sub len pb md)
    finally show ?thesis .
  qed
  have xm: "col (colwise_sub (map Fin (data (INPUT ws))) C (map Fin (take C (data (SAVED_MEAN ws))))) C j ! c =
       fsub (Fin (data (INPUT ws) ! (j * C + c))) (Fin (data (SAVED_MEAN ws) ! c))"
    using c j by (simp add: nth_col len cb nth_colwise_sub pb md)
  show ?thesis
    unfolding run_NHWC_folds(3)[OF r]
    apply (subst fold_col_add_nth)
    using j c pb[OF j]
        apply (auto simp: len length_col cb sIV rs1 rs2 xm nth_arr_scalar nth_arr_sub nth_arr_mul nth_col)
    done
qed

lemma run_NHWC_divisions:
  assumes r: "ready ws N C H W"
  shows "snd (run_NHWC ws N C H W) =
     concat (map (\<lambda>k. map (\<lambda>c. (fmul (Fin (data (SCALE ws) ! c)) (Fin (data (SAVED_INV_VAR ws) ! c)),
                float_of_int (N * H * W))) [0..<C]) [0..<N * H * W])"
proof -
  have rc: "C * (N * H * W) = N * C * H * W" by simp
  have "map (division (input_views ws C (N * H * W) N C H W)) [0..<C] =
        map (\<lambda>c. (fmul (Fin (data (SCALE ws) ! c)) (Fin (data (SAVED_INV_VAR ws) ! c)),
                float_of_int (N * H * W))) [0..<C]"
    by (intro map_cong refl division_ready(1)[OF r rc]) simp
  then show ?thesis unfolding run_NHWC_folds(4)[OF r] by (simp only:)
qed

subsection \<open>From the branches to the operator\<close>

lemma list4: "length xs = 4 \<Longrightarrow> xs = [xs ! 0, xs ! 1, xs ! 2, xs ! 3]"
  by (intro nth_equalityI) (auto simp: nth_Cons' numeral_eq_Suc less_Suc_eq)

lemma tsize_extents:
  assumes "ndim X = 4" "extents order X = (N, C, H, W)"
  shows "tsize X = N * C * H * W"
proof -
  have "dims X = [dims X ! 0, dims X ! 1, dims X ! 2, dims X ! 3]"
    using assms(1) by (intro list4) (simp add: ndim_def)
  then have "tsize X = dims X ! 0 * dims X ! 1 * dims X ! 2 * dims X ! 3"
    unfolding tsize_def by (metis prod_list.Cons prod_list.Nil mult.assoc mult.right_neutral)
  then show ?thesis using assms(2) by (auto simp: extents_def dim32_def split: if_splits)
qed

lemma ResizeLike_simps [simp]:
  "dims (ResizeLike raw t src) = dims src"
  "length (data (ResizeLike raw t src)) = tsize src"
  by (simp_all add: ResizeLike_def)

lemma init_outputs_inputs [simp]:
  "INPUT (init_outputs raw ws C) = INPUT ws"
  "SCALE (init_outputs raw ws C) = SCALE ws"
  "OUTPUT_GRAD (init_outputs raw ws C) = OUTPUT_GRAD ws"
  "SAVED_MEAN (init_outputs raw ws C) = SAVED_MEAN ws"
  "SAVED_INV_VAR (init_outputs raw ws C) = SAVED_INV_VAR ws"
  by (simp_all add: init_outputs_def write_back_def Let_def)

lemma init_outputs_dims [simp]:
  "dims (INPUT_GRAD (init_outputs raw ws C)) = dims (INPUT ws)"
  "dims (SCALE_GRAD (init_outputs raw ws C)) = dims (SCALE ws)"
  "dims (BIAS_GRAD (init_outputs raw ws C)) = dims (SCALE ws)"
  by (simp_all add: init_outputs_def write_back_def Let_def)

lemma init_outputs_zero:
  assumes "tsize (SCALE ws) = C"
  shows "data (SCALE_GRAD (init_outputs raw ws C)) = replicate C (Fin 0)"
    and "data (BIAS_GRAD (init_outputs raw ws C)) = replicate C (Fin 0)"
  using assms by (simp_all add: init_outputs_def write_back_def Let_def setZero_def VectorArrayMap_def)

lemma init_ready:
  assumes wf: "runnable order ws" and ex: "extents order (INPUT ws) = (N, C, H, W)"
  shows "ready (init_outputs raw ws C) N C H W"
proof -
  have w: "ndim (INPUT ws) = 4" "length (data (INPUT ws)) = tsize (INPUT ws)"
    "length (data (OUTPUT_GRAD ws)) = tsize (INPUT ws)"
    "dims (SCALE ws) = [C]" "length (data (SCALE ws)) = C"
    "C \<le> length (data (SAVED_MEAN ws))" "C \<le> length (data (SAVED_INV_VAR ws))"
    using wf ex by (simp_all add: runnable_def)
  have ts: "tsize (INPUT ws) = N * C * H * W" using w(1) ex by (rule tsize_extents)
  have sc: "tsize (SCALE ws) = C" using w(4) by (simp add: tsize_def)
  have "length (data (INPUT_GRAD (init_outputs raw ws C))) = N * C * H * W"
    by (simp add: init_outputs_def write_back_def Let_def ts)
  then show ?thesis
    using w ts by (simp add: ready_def init_outputs_zero[OF sc])
qed

lemma RunOnDevice_traced_wf:
  assumes wf: "runnable order ws" and ex: "extents order (INPUT ws) = (N, C, H, W)"
  shows "RunOnDevice_traced dbg raw order ws =
     (case order of
         NCHW \<Rightarrow> (None, run_NCHW (init_outputs raw ws C) N C H W)
       | NHWC \<Rightarrow> (None, run_NHWC (init_outputs raw ws C) N C H W)
       | UNKNOWN \<Rightarrow> (Some UnsupportedLayout, init_outputs raw ws C, []))"
proof -
  have "ndim (INPUT ws) = 4" "ndim (SCALE ws) = 1" "dim32 (SCALE ws) 0 = C"
    using wf ex by (simp_all add: runnable_def ndim_def dim32_def)
  then show ?thesis by (simp add: RunOnDevice_traced_def ex Let_def)
qed

lemma Run_NCHW:
  assumes "runnable NCHW ws" "extents NCHW (INPUT ws) = (N, C, H, W)"
  shows "RunOnDevice dbg raw NCHW ws = (None, fst (run_NCHW (init_outputs raw ws C) N C H W))"
    and "divisions dbg raw NCHW ws = snd (run_NCHW (init_outputs raw ws C) N C H W)"
  using RunOnDevice_traced_wf[OF assms, of dbg raw]
  by (simp_all add: RunOnDevice_def divisions_def split: prod.splits)

lemma Run_NHWC:
  assumes "runnable NHWC ws" "extents NHWC (INPUT ws) = (N, C, H, W)"
  shows "RunOnDevice dbg raw NHWC ws = (None, fst (run_NHWC (init_outputs raw ws C) N C H W))"
    and "divisions dbg raw NHWC ws = snd (run_NHWC (init_outputs raw ws C) N C H W)"
  using RunOnDevice_traced_wf[OF assms, of dbg raw]
  by (simp_all add: RunOnDevice_def divisions_def split: prod.splits)

lemma run_dims [simp]:
  "dims (INPUT_GRAD (fst (run_NCHW ws N C H W))) = dims (INPUT_GRAD ws)"
  "dims (SCALE_GRAD (fst (run_NCHW ws N C H W))) = dims (SCALE_GRAD ws)"
  "dims (BIAS_GRAD (fst (run_NCHW ws N C H W))) = dims (BIAS_GRAD ws)"
  "dims (INPUT_GRAD (fst (run_NHWC ws N C H W))) = dims (INPUT_GRAD ws)"
  "dims (SCALE_GRAD (fst (run_NHWC ws N C H W))) = dims (SCALE_GRAD ws)"
  "dims (BIAS_GRAD (fst (run_NHWC ws N C H W))) = dims (BIAS_GRAD ws)"
  by (simp_all add: run_NCHW_def write_back_def run_NHWC_def write_back_def Let_def split: prod.splits)

lemma run_inputs [simp]:
  "INPUT (fst (run_NCHW ws N C H W)) = INPUT ws"
  "SCALE (fst (run_NCHW ws N C H W)) = SCALE ws"
  "OUTPUT_GRAD (fst (run_NCHW ws N C H W)) = OUTPUT_GRAD ws"
  "SAVED_MEAN (fst (run_NCHW ws N C H W)) = SAVED_MEAN ws"
  "SAVED_INV_VAR (fst (run_NCHW ws N C H W)) = SAVED_INV_VAR ws"
  "INPUT (fst (run_NHWC ws N C H W)) = INPUT ws"
  "SCALE (fst (run_NHWC ws N C H W)) = SCALE ws"
  "OUTPUT_GRAD (fst (run_NHWC ws N C H W)) = OUTPUT_GRAD ws"
  "SAVED_MEAN (fst (run_NHWC ws N C H W)) = SAVED_MEAN ws"
  "SAVED_INV_VAR (fst (run_NHWC ws N C H W)) = SAVED_INV_VAR ws"
  by (simp_all add: run_NCHW_def write_back_def run_NHWC_def write_back_def Let_def split: prod.splits)

lemma extents_dims: "dims t = dims t' \<Longrightarrow> extents order t = extents order t'"
  by (simp add: extents_def dim32_def)

lemma elem_NCHW:
  "extents NCHW t = (N, C, H, W) \<Longrightarrow>
   elem NCHW t n c h w = data t ! ((n * C + c) * (H * W) + (h * W + w))"
  by (simp add: elem_def)

lemma elem_NHWC:
  "extents NHWC t = (N, C, H, W) \<Longrightarrow>
   elem NHWC t n c h w = data t ! (((n * H + h) * W + w) * C + c)"
  by (simp add: elem_def)

lemma wf_dY_extents:
  "runnable order ws \<Longrightarrow> extents order (OUTPUT_GRAD ws) = extents order (INPUT ws)"
  by (rule extents_dims) (simp add: runnable_def split: prod.splits)

lemma map_upt_positions:
  "map f [0..<N * (H * W)] =
   map (\<lambda>(n, h, w). f (n * (H * W) + (h * W + w))) (all_positions N H W)"
proof -
  have "map f [0..<N * (H * W)] = map (\<lambda>(n, i). f (n * (H * W) + i)) (List.product [0..<N] [0..<H * W])"
    by (rule map_upt_product)
  also have "[0..<H * W] = map (\<lambda>(h, w). h * W + w) (List.product [0..<H] [0..<W])"
    using map_upt_product[of "\<lambda>i. i" H W] by simp
  also have "List.product [0..<N] (map (\<lambda>(h, w). h * W + w) (List.product [0..<H] [0..<W])) =
      map (\<lambda>(n, h, w). (n, h * W + w)) (List.product [0..<N] (List.product [0..<H] [0..<W]))"
    by (induction "[0..<N]" arbitrary: N) (auto simp: List.product_concat_map map_concat comp_def
        split_beta)
  finally show ?thesis by (simp add: all_positions_def comp_def split_beta)
qed

subsection \<open>The outputs of a run\<close>

lemma Run_ok:
  assumes "runnable order ws" "order \<noteq> UNKNOWN"
  shows "fst (RunOnDevice dbg raw order ws) = None"
proof -
  obtain N C H W where ex: "extents order (INPUT ws) = (N, C, H, W)" by (metis prod_cases4)
  show ?thesis using assms ex by (cases order) (simp_all add: Run_NCHW Run_NHWC)
qed

lemma Run_cases:
  assumes wf: "runnable order ws" and ord: "order \<noteq> UNKNOWN"
    and ex: "extents order (INPUT ws) = (N, C, H, W)"
  obtains "order = NCHW" "snd (RunOnDevice dbg raw order ws) = fst (run_NCHW (init_outputs raw ws C) N C H W)"
    "divisions dbg raw order ws = snd (run_NCHW (init_outputs raw ws C) N C H W)"
  | "order = NHWC" "snd (RunOnDevice dbg raw order ws) = fst (run_NHWC (init_outputs raw ws C) N C H W)"
    "divisions dbg raw order ws = snd (run_NHWC (init_outputs raw ws C) N C H W)"
  using assms by (cases order) (simp_all add: Run_NCHW Run_NHWC)

lemma Run_shapes:
  assumes wf: "runnable order ws" and ord: "order \<noteq> UNKNOWN"
    and ex: "extents order (INPUT ws) = (N, C, H, W)"
  shows "dims (INPUT_GRAD (snd (RunOnDevice dbg raw order ws))) = dims (INPUT ws)"
    and "dims (SCALE_GRAD (snd (RunOnDevice dbg raw order ws))) = [C]"
    and "dims (BIAS_GRAD (snd (RunOnDevice dbg raw order ws))) = [C]"
    and "length (data (INPUT_GRAD (snd (RunOnDevice dbg raw order ws)))) = N * C * H * W"
    and "length (data (SCALE_GRAD (snd (RunOnDevice dbg raw order ws)))) = C"
    and "length (data (BIAS_GRAD (snd (RunOnDevice dbg raw order ws)))) = C"
proof -
  note r = init_ready[OF wf ex, of raw]
  have sc: "dims (SCALE ws) = [C]" using wf ex by (simp add: runnable_def)
  from wf ord ex
  show "dims (INPUT_GRAD (snd (RunOnDevice dbg raw order ws))) = dims (INPUT ws)"
    "dims (SCALE_GRAD (snd (RunOnDevice dbg raw order ws))) = [C]"
    "dims (BIAS_GRAD (snd (RunOnDevice dbg raw order ws))) = [C]"
    "length (data (INPUT_GRAD (snd (RunOnDevice dbg raw order ws)))) = N * C * H * W"
    "length (data (SCALE_GRAD (snd (RunOnDevice dbg raw order ws)))) = C"
    "length (data (BIAS_GRAD (snd (RunOnDevice dbg raw order ws)))) = C"
    by (cases rule: Run_cases[where dbg = dbg and raw = raw];
        simp add: sc run_NCHW_dX_length[OF r] run_NHWC_lengths[OF r] run_NCHW_lengths[OF r])+
qed

lemma block_terms_NCHW:
  assumes "extents NCHW t = (N, C, H, W)"
  shows "map (\<lambda>i. f (data t ! ((n * C + c) * (H * W) + i))) [0..<H * W] =
         map (\<lambda>(h, w). f (elem NCHW t n c h w)) (block_positions H W)"
  unfolding block_positions_def elem_NCHW[OF assms]
  by (rule map_upt_product[where f = "\<lambda>i. f (data t ! ((n * C + c) * (H * W) + i))"])

lemma block_terms2_NCHW:
  assumes "extents NCHW t = (N, C, H, W)" "extents NCHW u = (N, C, H, W)"
  shows "map (\<lambda>i. f (data t ! ((n * C + c) * (H * W) + i)) (data u ! ((n * C + c) * (H * W) + i))) [0..<H * W] =
         map (\<lambda>(h, w). f (elem NCHW t n c h w) (elem NCHW u n c h w)) (block_positions H W)"
  unfolding block_positions_def elem_NCHW[OF assms(1)] elem_NCHW[OF assms(2)]
  by (rule map_upt_product[where f = "\<lambda>i. f (data t ! ((n * C + c) * (H * W) + i))
        (data u ! ((n * C + c) * (H * W) + i))"])

lemma position_index: "n * (H * W) + (h * W + w) = (n * H + h) * W + w" for n :: nat
  by (simp add: algebra_simps)

lemma all_terms_NHWC:
  assumes "extents NHWC t = (N, C, H, W)"
  shows "map (\<lambda>j. f (data t ! (j * C + c))) [0..<N * H * W] =
         map (\<lambda>(n, h, w). f (elem NHWC t n c h w)) (all_positions N H W)"
proof -
  have "map (\<lambda>j. f (data t ! (j * C + c))) [0..<N * (H * W)] =
      map (\<lambda>(n, h, w). f (data t ! ((n * (H * W) + (h * W + w)) * C + c))) (all_positions N H W)"
    by (rule map_upt_positions)
  then show ?thesis by (simp only: position_index elem_NHWC[OF assms] mult.assoc)
qed

lemma all_terms2_NHWC:
  assumes "extents NHWC t = (N, C, H, W)" "extents NHWC u = (N, C, H, W)"
  shows "map (\<lambda>j. f (data t ! (j * C + c)) (data u ! (j * C + c))) [0..<N * H * W] =
         map (\<lambda>(n, h, w). f (elem NHWC t n c h w) (elem NHWC u n c h w)) (all_positions N H W)"
proof -
  have "map (\<lambda>j. f (data t ! (j * C + c)) (data u ! (j * C + c))) [0..<N * (H * W)] =
      map (\<lambda>(n, h, w). f (data t ! ((n * (H * W) + (h * W + w)) * C + c))
         (data u ! ((n * (H * W) + (h * W + w)) * C + c))) (all_positions N H W)"
    by (rule map_upt_positions)
  then show ?thesis by (simp only: position_index elem_NHWC[OF assms(1)] elem_NHWC[OF assms(2)] mult.assoc)
qed

lemma Run_bias:
  assumes wf: "runnable order ws" and ord: "order \<noteq> UNKNOWN"
    and ex: "extents order (INPUT ws) = (N, C, H, W)" and c: "c < C"
  shows "data (BIAS_GRAD (snd (RunOnDevice dbg raw order ws))) ! c =
         accumulated order N H W (bias_term order ws c)"
proof -
  note r = init_ready[OF wf ex, of raw]
  have exY: "extents order (OUTPUT_GRAD ws) = (N, C, H, W)" using wf_dY_extents[OF wf] ex by simp
  from wf ord ex show ?thesis
  proof (cases rule: Run_cases[where dbg = dbg and raw = raw])
    case 1
    show ?thesis
      unfolding 1(2) run_NCHW_bias[OF r c] init_outputs_inputs
      unfolding block_terms_NCHW[OF exY[unfolded 1(1)], where f = Fin] 1(1)
        accumulated_def bias_term_def
      by simp
  next
    case 2
    show ?thesis
      unfolding 2(2) run_NHWC_bias[OF r c] init_outputs_inputs
      unfolding all_terms_NHWC[OF exY[unfolded 2(1)], where f = Fin] 2(1)
        accumulated_def bias_term_def
      by simp
  qed
qed

lemma Run_scale:
  assumes wf: "runnable order ws" and ord: "order \<noteq> UNKNOWN"
    and ex: "extents order (INPUT ws) = (N, C, H, W)" and c: "c < C"
  shows "data (SCALE_GRAD (snd (RunOnDevice dbg raw order ws))) ! c =
         accumulated order N H W (scale_term order ws c)"
proof -
  note r = init_ready[OF wf ex, of raw]
  have exY: "extents order (OUTPUT_GRAD ws) = (N, C, H, W)" using wf_dY_extents[OF wf] ex by simp
  let ?f = "\<lambda>x dy. fmul (fmul (fsub (Fin x) (Fin (data (SAVED_MEAN ws) ! c)))
                        (Fin (data (SAVED_INV_VAR ws) ! c))) (Fin dy)"
  from wf ord ex show ?thesis
  proof (cases rule: Run_cases[where dbg = dbg and raw = raw])
    case 1
    show ?thesis
      unfolding 1(2) run_NCHW_scale[OF r c] init_outputs_inputs
      unfolding block_terms2_NCHW[OF ex[unfolded 1(1)] exY[unfolded 1(1)], where f = ?f] 1(1)
        accumulated_def scale_term_def centred_def
      by simp
  next
    case 2
    show ?thesis
      unfolding 2(2) run_NHWC_scale[OF r c] init_outputs_inputs
      unfolding all_terms2_NHWC[OF ex[unfolded 2(1)] exY[unfolded 2(1)], where f = ?f] 2(1)
        accumulated_def scale_term_def centred_def
      by simp
  qed
qed

lemma Run_dX_NCHW:
  assumes wf: "runnable NCHW ws" and ex: "extents NCHW (INPUT ws) = (N, C, H, W)"
    and n: "n < N" and c: "c < C" and h: "h < H" and w: "w < W"
  shows "elem NCHW (INPUT_GRAD (snd (RunOnDevice dbg raw NCHW ws))) n c h w =
     fadd (Fin 0)
       (fmul (channel_factor ws N H W c)
         (fsub
           (fsub (scaled_grad NCHW ws N H W c n h w)
              (data (BIAS_GRAD (snd (RunOnDevice dbg raw NCHW ws))) ! c))
           (fmul (fmul (centred NCHW ws c n h w) (data (SCALE_GRAD (snd (RunOnDevice dbg raw NCHW ws))) ! c))
              (Fin (data (SAVED_INV_VAR ws) ! c)))))"
proof -
  note r = init_ready[OF wf ex, of raw]
  have o: "NCHW \<noteq> UNKNOWN" by simp
  have exY: "extents NCHW (OUTPUT_GRAD ws) = (N, C, H, W)" using wf_dY_extents[OF wf] ex by simp
  have run: "snd (RunOnDevice dbg raw NCHW ws) = fst (run_NCHW (init_outputs raw ws C) N C H W)"
    by (simp add: Run_NCHW[OF wf ex])
  have exX: "extents NCHW (INPUT_GRAD (fst (run_NCHW (init_outputs raw ws C) N C H W))) = (N, C, H, W)"
    using extents_dims[OF Run_shapes(1)[OF wf o ex, of dbg raw]] ex unfolding run by simp
  have i: "h * W + w < H * W" using h w by (rule idx_bound)
  show ?thesis
    unfolding run elem_NCHW[OF exX] run_NCHW_dX[OF r n c i] init_outputs_inputs
      channel_factor_def scaled_grad_def centred_def elem_NCHW[OF exY] elem_NCHW[OF ex]
    by (rule refl)
qed

lemma Run_dX_NHWC:
  assumes wf: "runnable NHWC ws" and ex: "extents NHWC (INPUT ws) = (N, C, H, W)"
    and n: "n < N" and c: "c < C" and h: "h < H" and w: "w < W"
  shows "elem NHWC (INPUT_GRAD (snd (RunOnDevice dbg raw NHWC ws))) n c h w =
     fadd (Fin 0)
       (fmul (channel_factor ws N H W c)
         (fsub
           (fsub (scaled_grad NHWC ws N H W c n h w) (row_total N H W (bias_term NHWC ws c)))
           (fmul (fmul (centred NHWC ws c n h w)
                    (fmul (Fin (data (SAVED_INV_VAR ws) ! c)) (Fin (data (SAVED_INV_VAR ws) ! c))))
              (row_total N H W (\<lambda>n h w. fmul (bias_term NHWC ws c n h w) (centred NHWC ws c n h w))))))"
proof -
  note r = init_ready[OF wf ex, of raw]
  have o: "NHWC \<noteq> UNKNOWN" by simp
  have exY: "extents NHWC (OUTPUT_GRAD ws) = (N, C, H, W)" using wf_dY_extents[OF wf] ex by simp
  have run: "snd (RunOnDevice dbg raw NHWC ws) = fst (run_NHWC (init_outputs raw ws C) N C H W)"
    by (simp add: Run_NHWC[OF wf ex])
  have exX: "extents NHWC (INPUT_GRAD (fst (run_NHWC (init_outputs raw ws C) N C H W))) = (N, C, H, W)"
    using extents_dims[OF Run_shapes(1)[OF wf o ex, of dbg raw]] ex unfolding run by simp
  have j: "(n * H + h) * W + w < N * H * W" using idx_bound[OF idx_bound[OF n h] w] .
  have t1: "map (\<lambda>k. Fin (data (OUTPUT_GRAD ws) ! (k * C + c))) [0..<N * H * W] =
      map (\<lambda>(n, h, w). bias_term NHWC ws c n h w) (all_positions N H W)"
    unfolding bias_term_def by (rule all_terms_NHWC[OF exY, where f = Fin])
  have t2: "map (\<lambda>k. fmul (Fin (data (OUTPUT_GRAD ws) ! (k * C + c)))
                     (fsub (Fin (data (INPUT ws) ! (k * C + c))) (Fin (data (SAVED_MEAN ws) ! c))))
                 [0..<N * H * W] =
      map (\<lambda>(n, h, w). fmul (bias_term NHWC ws c n h w) (centred NHWC ws c n h w)) (all_positions N H W)"
    unfolding bias_term_def centred_def
    by (rule all_terms2_NHWC[OF exY ex,
          where f = "\<lambda>dy x. fmul (Fin dy) (fsub (Fin x) (Fin (data (SAVED_MEAN ws) ! c)))"])
  show ?thesis
    unfolding run elem_NHWC[OF exX] run_NHWC_dX[OF r j c] init_outputs_inputs t1 t2
    unfolding channel_factor_def scaled_grad_def centred_def row_total_def
      elem_NHWC[OF exY] elem_NHWC[OF ex]
    by (rule refl)
qed

lemma Run_divisions:
  assumes wf: "runnable order ws" and ord: "order \<noteq> UNKNOWN"
    and ex: "extents order (INPUT ws) = (N, C, H, W)"
  shows "divisions dbg raw order ws =
     (if order = NCHW
      then map (\<lambda>nc. (fmul (Fin (data (SCALE ws) ! (nc mod C))) (Fin (data (SAVED_INV_VAR ws) ! (nc mod C))),
                float_of_int (N * H * W))) [0..<N * C]
      else concat (map (\<lambda>k. map (\<lambda>c. (fmul (Fin (data (SCALE ws) ! c)) (Fin (data (SAVED_INV_VAR ws) ! c)),
                float_of_int (N * H * W))) [0..<C]) [0..<N * H * W]))"
proof -
  note r = init_ready[OF wf ex, of raw]
  from wf ord ex show ?thesis
  proof (cases rule: Run_cases[where dbg = dbg and raw = raw])
    case 1
    show ?thesis unfolding 1(3) run_NCHW_divisions[OF r] using 1(1) by simp
  next
    case 2
    show ?thesis unfolding 2(3) run_NHWC_divisions[OF r] using 2(1) by simp
  qed
qed

subsection \<open>Finite results and exact sums\<close>

lemma expo_search_le: "expo_search a p e n \<le> e + int n"
proof (induction n arbitrary: p e)
  case 0
  then show ?case by simp
next
  case (Suc n)
  have "expo_search a (2 * p) (e + 1) n \<le> e + 1 + int n" by (rule Suc.IH)
  then show ?case by simp
qed

lemma expo_le: "expo a \<le> 128"
  unfolding expo_def using expo_search_le[of a "2 powi (- 125)" "- 126" 254] by simp

lemma rne_close: "\<bar>of_int (rne m) - m\<bar> \<le> 1"
  unfolding rne_def Let_def by (auto; linarith)

lemma fl_finite:
  assumes "\<bar>x\<bar> \<le> 2 ^ 127"
  shows "is_finite (fl x)"
proof -
  define q :: real where "q = 2 powi (expo \<bar>x\<bar> - 23)"
  have q0: "0 < q" by (simp add: q_def)
  have "q \<le> 2 powi 105" unfolding q_def using expo_le[of "\<bar>x\<bar>"] by (intro power_int_increasing) simp_all
  then have q105: "q \<le> 2 ^ 105" by simp
  have "of_int (rne (x / q)) * q - x = (of_int (rne (x / q)) - x / q) * q"
    using q0 by (simp add: left_diff_distrib)
  then have "\<bar>of_int (rne (x / q)) * q - x\<bar> = \<bar>of_int (rne (x / q)) - x / q\<bar> * q"
    using q0 by (simp only: abs_mult abs_of_pos)
  also have "\<dots> \<le> 1 * q" using rne_close[of "x / q"] q0 by (intro mult_right_mono) simp_all
  finally have "\<bar>of_int (rne (x / q)) * q\<bar> \<le> \<bar>x\<bar> + q" by simp
  also have "\<dots> \<le> 2 ^ 127 + 2 ^ 105" using assms q105 by simp
  also have "\<dots> < (2 ^ 128 :: real)" by simp
  finally show ?thesis by (simp add: fl_def Let_def q_def[symmetric])
qed

lemma float_of_int_finite: "n < 2 ^ 31 \<Longrightarrow> is_finite (float_of_int n)"
proof -
  assume "n < 2 ^ 31"
  then have "real n \<le> 2 ^ 31" by (metis less_imp_le of_nat_le_iff of_nat_numeral of_nat_power)
  also have "\<dots> \<le> (2 ^ 127 :: real)" by simp
  finally show ?thesis unfolding float_of_int_def by (intro fl_finite) simp
qed

lemma foldl_fadd_ints:
  assumes "\<forall>x\<in>set xs. x \<in> \<int>" "a \<in> \<int>" "\<bar>a\<bar> + sum_list (map abs xs) \<le> 2 ^ 24"
  shows "foldl fadd (Fin a) (map Fin xs) = Fin (a + sum_list xs)"
  using assms
proof (induction xs arbitrary: a)
  case Nil
  then show ?case by simp
next
  case (Cons x xs)
  have nn: "0 \<le> sum_list (map abs xs)" by (intro sum_list_nonneg) auto
  have "a + x \<in> \<int>" using Cons.prems by simp
  moreover have "\<bar>a + x\<bar> \<le> 2 ^ 24" using Cons.prems(3) nn by simp
  ultimately have "fl (a + x) = Fin (a + x)" by (rule fl_Ints)
  moreover have "foldl fadd (Fin (a + x)) (map Fin xs) = Fin (a + x + sum_list xs)"
    using Cons.prems by (intro Cons.IH) auto
  ultimately show ?case by (simp add: add.assoc)
qed

lemma fsum_ints:
  assumes "\<forall>x\<in>set xs. x \<in> \<int>" "sum_list (map abs xs) \<le> 2 ^ 24"
  shows "fsum (map Fin xs) = Fin (sum_list xs)"
proof (cases xs)
  case Nil
  then show ?thesis by (simp add: fsum_def)
next
  case (Cons x ys)
  have "foldl fadd (Fin x) (map Fin ys) = Fin (x + sum_list ys)"
    using assms unfolding Cons by (intro foldl_fadd_ints) auto
  then show ?thesis by (simp add: fsum_def Cons)
qed

subsection \<open>Evaluating binary32 operations on small integers\<close>

lemma fl_1 [simp]: "fl 1 = Fin 1"
  using fl_of_int[of 1] by simp

lemma fl_numeral [simp]: "numeral k \<le> (2 ^ 24 :: int) \<Longrightarrow> fl (numeral k) = Fin (numeral k)"
  using fl_of_int[of "numeral k"] by simp

lemma fl_neg_1 [simp]: "fl (- 1) = Fin (- 1)"
  using fl_of_int[of "- 1"] by simp

lemma fl_neg_numeral [simp]: "numeral k \<le> (2 ^ 24 :: int) \<Longrightarrow> fl (- numeral k) = Fin (- numeral k)"
  using fl_of_int[of "- numeral k"] by simp

lemma float_of_int_simps [simp]:
  "float_of_int 0 = Fin 0"
  "float_of_int (Suc 0) = Fin 1"
  "numeral k \<le> (2 ^ 24 :: nat) \<Longrightarrow> float_of_int (numeral k) = Fin (numeral k)"
  using float_of_int_small[of 0] float_of_int_small[of "Suc 0"] float_of_int_small[of "numeral k"]
  by simp_all

lemma upt_2: "[0..<2] = [0, Suc 0]"
  by (simp add: upt_rec numeral_2_eq_2)

lemma upt_3: "[0..<3] = [0, Suc 0, 2]"
  by (simp add: upt_rec numeral_3_eq_3 numeral_2_eq_2)

lemma upt_4: "[0..<4] = [0, Suc 0, 2, 3]"
  by (simp add: upt_rec eval_nat_numeral)

lemma list1: "length xs = Suc 0 \<Longrightarrow> xs = [xs ! 0]"
  by (cases xs) simp_all

lemma list2: "length xs = 2 \<Longrightarrow> xs = [xs ! 0, xs ! 1]"
  by (intro nth_equalityI) (auto simp: nth_Cons' less_2_cases_iff)

subsection \<open>Facts about the concrete invocations\<close>

lemma invocation_simps [simp]:
  "INPUT (invocation d x dy sc mn iv) = \<lparr>dims = d, data = x\<rparr>"
  "SCALE (invocation d x dy sc mn iv) = \<lparr>dims = [length sc], data = sc\<rparr>"
  "OUTPUT_GRAD (invocation d x dy sc mn iv) = \<lparr>dims = d, data = dy\<rparr>"
  "SAVED_MEAN (invocation d x dy sc mn iv) = \<lparr>dims = [length mn], data = mn\<rparr>"
  "SAVED_INV_VAR (invocation d x dy sc mn iv) = \<lparr>dims = [length iv], data = iv\<rparr>"
  "INPUT_GRAD (invocation d x dy sc mn iv) = sentinel"
  "SCALE_GRAD (invocation d x dy sc mn iv) = sentinel"
  "BIAS_GRAD (invocation d x dy sc mn iv) = sentinel"
  by (simp_all add: invocation_def)

lemma well_formed_runnable: "well_formed order ws \<Longrightarrow> runnable order ws"
  by (auto simp: well_formed_def runnable_def)

lemma well_formed_invocation:
  assumes "extents order \<lparr>dims = [a, b, c, d], data = x\<rparr> = (N, C, H, W)"
    and "length x = a * b * c * d" "length dy = a * b * c * d"
    and "length sc = C" "length mn = C" "length iv = C" "int32_ok N C H W"
  shows "well_formed order (invocation [a, b, c, d] x dy sc mn iv)"
  using assms by (simp add: well_formed_def ndim_def tsize_def)

lemma extents_4 [simp]:
  "extents NCHW \<lparr>dims = [a, b, c, d], data = x\<rparr> = (a, b, c, d)"
  "extents NHWC \<lparr>dims = [a, b, c, d], data = x\<rparr> = (a, d, b, c)"
  "extents UNKNOWN \<lparr>dims = [a, b, c, d], data = x\<rparr> = (a, d, b, c)"
  by (simp_all add: extents_def dim32_def)

lemma int32_ok_small:
  fixes N C H W :: nat
  assumes a: "N \<le> 4" "C \<le> 4" "H \<le> 4" "W \<le> 4"
  shows "int32_ok N C H W"
proof -
  have 1: "N * H \<le> 4 * 4" using a by (intro mult_le_mono)
  have 2: "H * W \<le> 4 * 4" using a by (intro mult_le_mono)
  have 3: "N * C \<le> 4 * 4" using a by (intro mult_le_mono)
  have 4: "N * H * W \<le> 4 * 4 * 4" using a by (intro mult_le_mono)
  show ?thesis using a 1 2 3 4 by (simp add: int32_ok_def)
qed

lemma sample_NCHW_wf: "well_formed NCHW (sample_NCHW [a, b, c, d])"
  unfolding sample_NCHW_def by (rule well_formed_invocation[OF extents_4(1)]) (simp_all add: int32_ok_small)

lemma sample_NCHW_extents: "extents NCHW (INPUT (sample_NCHW dy)) = (1, 2, 1, 2)"
  by (simp add: sample_NCHW_def)

lemma sample_NHWC_wf: "well_formed NHWC (sample_NHWC [a, b, c, d])"
  unfolding sample_NHWC_def by (rule well_formed_invocation[OF extents_4(2)]) (simp_all add: int32_ok_small)

lemma sample_NHWC_extents: "extents NHWC (INPUT (sample_NHWC dy)) = (1, 2, 1, 2)"
  by (simp add: sample_NHWC_def)

lemma numeric_check_wf: "order \<noteq> UNKNOWN \<Longrightarrow> well_formed order (numeric_check o1 o2 o3)"
  by (simp add: well_formed_def extents_def dim32_def ndim_def tsize_def numeric_check_def int32_ok_small)

lemma numeric_check_extents: "extents order (INPUT (numeric_check o1 o2 o3)) = (2, 1, 1, 1)"
  by (simp add: extents_def dim32_def numeric_check_def)

section \<open>The claims\<close>

subsection \<open>Sums of zeros\<close>

lemma accumulated_zeros:
  assumes "\<forall>n<N. \<forall>h<H. \<forall>w<W. t n h w = Fin 0"
  shows "accumulated order N H W t = Fin 0"
proof (cases "order = NCHW")
  case True
  have "fsum (map (\<lambda>(h, w). t n h w) (block_positions H W)) = Fin 0" if "n < N" for n
    using assms that by (intro fsum_zeros) (auto simp: block_positions_def)
  then show ?thesis using True by (simp add: accumulated_def foldl_fadd_zeros)
next
  case False
  have "foldl fadd (Fin 0) (map (\<lambda>(n, h, w). t n h w) (all_positions N H W)) = Fin 0"
    using assms by (intro foldl_fadd_zeros) (auto simp: all_positions_def)
  then show ?thesis using False by (simp add: accumulated_def)
qed

lemma row_total_zeros:
  assumes "\<forall>n<N. \<forall>h<H. \<forall>w<W. t n h w = Fin 0"
  shows "row_total N H W t = Fin 0"
  unfolding row_total_def using assms by (intro fsum_zeros) (auto simp: all_positions_def)

subsection \<open>A channel that sits at its mean\<close>



subsection \<open>Frame\<close>

text \<open>
  Claim C9. Every run, failing or not, in a debug build or not, leaves the five inputs
  (activation, scale, output gradient, saved mean, saved inverse standard deviation) as they
  were: only the three output blobs of the workspace can differ afterwards.
\<close>

theorem inputs_unchanged:
  "INPUT (snd (RunOnDevice dbg raw order ws)) = INPUT ws \<and>
   SCALE (snd (RunOnDevice dbg raw order ws)) = SCALE ws \<and>
   OUTPUT_GRAD (snd (RunOnDevice dbg raw order ws)) = OUTPUT_GRAD ws \<and>
   SAVED_MEAN (snd (RunOnDevice dbg raw order ws)) = SAVED_MEAN ws \<and>
   SAVED_INV_VAR (snd (RunOnDevice dbg raw order ws)) = SAVED_INV_VAR ws"
proof -
  obtain N C H W where ex: "extents order (INPUT ws) = (N, C, H, W)" by (metis prod_cases4)
  have "snd (RunOnDevice dbg raw order ws) = fst (snd (RunOnDevice_traced dbg raw order ws))"
    by (simp add: RunOnDevice_def split: prod.splits)
  then show ?thesis
    using ex by (cases order) (simp_all add: RunOnDevice_traced_def Let_def)
qed

subsection \<open>The numerical check\<close>

lemma elem_numeric:
  assumes "dims t = [2, 1, 1, 1]"
  shows "elem order t n 0 0 0 = data t ! n"
  using assms by (simp add: elem_def extents_def dim32_def)

lemma numeric_check_any:
  assumes ord: "order \<noteq> UNKNOWN"
  shows "fst (RunOnDevice dbg raw order (numeric_check o1 o2 o3)) = None \<and>
         data (BIAS_GRAD (snd (RunOnDevice dbg raw order (numeric_check o1 o2 o3)))) = [Fin 2] \<and>
         data (SCALE_GRAD (snd (RunOnDevice dbg raw order (numeric_check o1 o2 o3)))) = [Fin 0] \<and>
         data (INPUT_GRAD (snd (RunOnDevice dbg raw order (numeric_check o1 o2 o3)))) = [Fin 0, Fin 0]"
proof -
  let ?ws = "numeric_check o1 o2 o3"
  let ?ws' = "snd (RunOnDevice dbg raw order ?ws)"
  note wf = well_formed_runnable[OF numeric_check_wf[OF ord, of o1 o2 o3]]
  note ex = numeric_check_extents[of order o1 o2 o3]
  have d: "data (INPUT ?ws) = [1, 3]" "data (OUTPUT_GRAD ?ws) = [1, 1]" "data (SCALE ?ws) = [2]"
    "data (SAVED_MEAN ?ws) = [2]" "data (SAVED_INV_VAR ?ws) = [1]"
    "dims (INPUT ?ws) = [2, 1, 1, 1]" "dims (OUTPUT_GRAD ?ws) = [2, 1, 1, 1]"
    by (simp_all add: numeric_check_def)
  have c: "(0::nat) < 1" by simp
  note ev = accumulated_def row_total_def block_positions_def all_positions_def upt_2 fsum_def
    bias_term_def scale_term_def centred_def channel_factor_def scaled_grad_def fsub_def elem_numeric d
  have b: "data (BIAS_GRAD ?ws') ! 0 = Fin 2"
    using Run_bias[OF wf ord ex c, of dbg raw] by (simp add: ev)
  have s: "data (SCALE_GRAD ?ws') ! 0 = Fin 0"
    using Run_scale[OF wf ord ex c, of dbg raw] by (simp add: ev)
  have dd: "dims (INPUT_GRAD ?ws') = [2, 1, 1, 1]"
    using Run_shapes(1)[OF wf ord ex, of dbg raw] by (simp add: d)
  have x: "data (INPUT_GRAD ?ws') ! n = Fin 0" if "n < 2" for n
  proof (cases order)
    case UNKNOWN
    then show ?thesis using ord by simp
  next
    case NHWC
    show ?thesis
      using Run_dX_NHWC[OF wf[unfolded NHWC] ex[unfolded NHWC] that c c c, of dbg raw] that
      unfolding NHWC[symmetric]
      by (auto simp: ev dd less_2_cases_iff)
  next
    case NCHW
    show ?thesis
      using Run_dX_NCHW[OF wf[unfolded NCHW] ex[unfolded NCHW] that c c c, of dbg raw] that
      unfolding NCHW[symmetric]
      by (auto simp: ev dd b s less_2_cases_iff)
  qed
  have "data (BIAS_GRAD ?ws') = [data (BIAS_GRAD ?ws') ! 0]"
    using Run_shapes(6)[OF wf ord ex, of dbg raw] by (intro list1) simp
  moreover have "data (SCALE_GRAD ?ws') = [data (SCALE_GRAD ?ws') ! 0]"
    using Run_shapes(5)[OF wf ord ex, of dbg raw] by (intro list1) simp
  moreover have "data (INPUT_GRAD ?ws') = [data (INPUT_GRAD ?ws') ! 0, data (INPUT_GRAD ?ws') ! 1]"
    using Run_shapes(4)[OF wf ord ex, of dbg raw] by (intro list2) simp
  ultimately show ?thesis
    using Run_ok[OF wf ord, of dbg raw] b s x[of 0] x[of 1] by simp
qed

text \<open>
  Claim C3. For \<open>N = 2\<close>, \<open>C = H = W = 1\<close>, activation \<open>[1, 3]\<close>, scale \<open>[2]\<close>, saved mean
  \<open>[2]\<close>, saved inverse standard deviation \<open>[1]\<close> and output gradient \<open>[1, 1]\<close> the run
  succeeds and produces \<open>biasGrad = [2]\<close>, \<open>scaleGrad = [0]\<close> and \<open>inputGrad = [0, 0]\<close>, in
  either layout, in a debug build or not, and whatever the three output blobs held before.
\<close>

theorem numeric_check_result:
  "fst (RunOnDevice dbg raw NCHW (numeric_check o1 o2 o3)) = None \<and>
   data (BIAS_GRAD (snd (RunOnDevice dbg raw NCHW (numeric_check o1 o2 o3)))) = [Fin 2] \<and>
   data (SCALE_GRAD (snd (RunOnDevice dbg raw NCHW (numeric_check o1 o2 o3)))) = [Fin 0] \<and>
   data (INPUT_GRAD (snd (RunOnDevice dbg raw NCHW (numeric_check o1 o2 o3)))) = [Fin 0, Fin 0] \<and>
   fst (RunOnDevice dbg raw NHWC (numeric_check o1 o2 o3)) = None \<and>
   data (BIAS_GRAD (snd (RunOnDevice dbg raw NHWC (numeric_check o1 o2 o3)))) = [Fin 2] \<and>
   data (SCALE_GRAD (snd (RunOnDevice dbg raw NHWC (numeric_check o1 o2 o3)))) = [Fin 0] \<and>
   data (INPUT_GRAD (snd (RunOnDevice dbg raw NHWC (numeric_check o1 o2 o3)))) = [Fin 0, Fin 0]"
  using numeric_check_any[of NCHW dbg raw o1 o2 o3] numeric_check_any[of NHWC dbg raw o1 o2 o3] by simp

subsection \<open>Shape validation\<close>

lemma long_mean_runnable: "runnable NCHW long_mean"
  by (simp add: runnable_def long_mean_def ndim_def tsize_def int32_ok_small)

lemma long_mean_extents: "extents NCHW (INPUT long_mean) = (2, 1, 1, 1)"
  by (simp add: long_mean_def)

text \<open>
  Claim C4, as stated, fails, in two ways. The length of the saved mean is checked in no build:
  with \<open>C = 1\<close> and a saved mean of two cells a debug build runs through and overwrites the
  sentinel that the bias gradient held. And the checks on the activation's rank and on \<open>scale\<close>
  exist in debug builds only: without them a \<open>scale\<close> of two cells with \<open>C = 1\<close> is not
  rejected, the run reports success, and the bias gradient has been resized to two cells.
\<close>

theorem shape_checks_counterexample:
  "length (data (SAVED_MEAN long_mean)) = 2 \<and>
   extents NCHW (INPUT long_mean) = (2, 1, 1, 1) \<and>
   data (BIAS_GRAD long_mean) = [Fin 7] \<and>
   fst (RunOnDevice True (Fin \<circ> real) NCHW long_mean) = None \<and>
   data (BIAS_GRAD (snd (RunOnDevice True (Fin \<circ> real) NCHW long_mean))) = [Fin 2] \<and>
   dim32 (SCALE long_scale) 0 = 2 \<and>
   extents NCHW (INPUT long_scale) = (2, 1, 1, 1) \<and>
   dims (BIAS_GRAD long_scale) = [1] \<and>
   fst (RunOnDevice False (Fin \<circ> real) NCHW long_scale) = None \<and>
   dims (BIAS_GRAD (snd (RunOnDevice False (Fin \<circ> real) NCHW long_scale))) = [2]"
proof -
  let ?ws' = "snd (RunOnDevice True (Fin \<circ> real) NCHW long_mean)"
  have o: "NCHW \<noteq> UNKNOWN" and c: "(0::nat) < 1" by simp_all
  note wf = long_mean_runnable and ex = long_mean_extents
  have d: "data (OUTPUT_GRAD long_mean) = [1, 1]" "dims (OUTPUT_GRAD long_mean) = [2, 1, 1, 1]"
    by (simp_all add: long_mean_def)
  have "data (BIAS_GRAD ?ws') ! 0 = Fin 2"
    using Run_bias[OF wf o ex c, of True "Fin \<circ> real"]
    by (simp add: accumulated_def block_positions_def upt_2 fsum_def bias_term_def elem_numeric d)
  moreover have "data (BIAS_GRAD ?ws') = [data (BIAS_GRAD ?ws') ! 0]"
    using Run_shapes(6)[OF wf o ex, of True "Fin \<circ> real"] by (intro list1) simp
  ultimately have b: "data (BIAS_GRAD ?ws') = [Fin 2]" by simp
  have r: "snd (RunOnDevice False (Fin \<circ> real) NCHW long_scale) =
      fst (run_NCHW (init_outputs (Fin \<circ> real) long_scale 1) 2 1 1 1)"
    "fst (RunOnDevice False (Fin \<circ> real) NCHW long_scale) = None"
    by (simp_all add: RunOnDevice_def RunOnDevice_traced_def long_scale_def Let_def split: prod.splits)
  show ?thesis
    using Run_ok[OF wf o, of True "Fin \<circ> real"] b ex
    unfolding r
    by (simp add: long_mean_def long_scale_def sentinel_def dim32_def)
qed

text \<open>
  Claim C4, amended. In a debug build, if the activation tensor's rank is not 4, or \<open>scale\<close>
  is not a vector of length \<open>C\<close>, the failed check ends the run with \<open>ShapeMismatch\<close> (the
  process aborts) before any output buffer is written: the workspace, the three output blobs
  included, is exactly as it was before the run. In a build without debug checks no run ends
  with \<open>ShapeMismatch\<close>. (The lengths of the saved mean and of the saved inverse standard
  deviation are checked in no build.)
\<close>

theorem shape_mismatch_leaves_outputs:
  assumes "ndim (INPUT ws) \<noteq> 4 \<or> ndim (SCALE ws) \<noteq> 1 \<or>
           dim32 (SCALE ws) 0 \<noteq> fst (snd (extents order (INPUT ws)))"
  shows "RunOnDevice True raw order ws = (Some ShapeMismatch, ws) \<and>
         fst (RunOnDevice False raw order ws) \<noteq> Some ShapeMismatch"
proof -
  obtain N C H W where ex: "extents order (INPUT ws) = (N, C, H, W)" by (metis prod_cases4)
  have "RunOnDevice True raw order ws = (Some ShapeMismatch, ws)"
    using assms by (auto simp: RunOnDevice_def RunOnDevice_traced_def ex)
  moreover have "fst (RunOnDevice False raw order ws) \<noteq> Some ShapeMismatch"
    by (cases order) (simp_all add: RunOnDevice_def RunOnDevice_traced_def ex Let_def split: prod.splits)
  ultimately show ?thesis by simp
qed

theorem shape_mismatch_leaves_outputs_witness:
  "dim32 (SCALE long_scale) 0 = 2 \<and> fst (snd (extents NCHW (INPUT long_scale))) = 1 \<and>
   RunOnDevice True (Fin \<circ> real) NCHW long_scale = (Some ShapeMismatch, long_scale) \<and>
   BIAS_GRAD (snd (RunOnDevice True (Fin \<circ> real) NCHW long_scale)) = sentinel \<and>
   fst (RunOnDevice False (Fin \<circ> real) NCHW long_scale) \<noteq> Some ShapeMismatch"
proof -
  have d: "dim32 (SCALE long_scale) 0 = 2" "fst (snd (extents NCHW (INPUT long_scale))) = 1"
    "BIAS_GRAD long_scale = sentinel"
    by (simp_all add: long_scale_def dim32_def)
  then have "ndim (INPUT long_scale) \<noteq> 4 \<or> ndim (SCALE long_scale) \<noteq> 1 \<or>
           dim32 (SCALE long_scale) 0 \<noteq> fst (snd (extents NCHW (INPUT long_scale)))"
    by simp
  from shape_mismatch_leaves_outputs[OF this, of "Fin \<circ> real"] d show ?thesis by simp
qed

subsection \<open>Unrecognized layout\<close>

lemma unknown_layout_state:
  assumes "ndim (INPUT ws) = 4" and "ndim (SCALE ws) = 1"
    and "dim32 (SCALE ws) 0 = dim32 (INPUT ws) 3"
  shows "RunOnDevice dbg raw UNKNOWN ws =
           (Some UnsupportedLayout,
            ws\<lparr>INPUT_GRAD := ResizeLike raw (INPUT_GRAD ws) (INPUT ws),
               SCALE_GRAD := \<lparr>dims = dims (SCALE ws), data = replicate (dim32 (INPUT ws) 3) (Fin 0)\<rparr>,
               BIAS_GRAD := \<lparr>dims = dims (SCALE ws), data = replicate (dim32 (INPUT ws) 3) (Fin 0)\<rparr>\<rparr>)"
proof -
  have "dims (SCALE ws) = [dim32 (INPUT ws) 3]"
    using assms(2,3) by (cases "dims (SCALE ws)") (simp_all add: ndim_def dim32_def)
  then have "tsize (SCALE ws) = dim32 (INPUT ws) 3" by (simp add: tsize_def)
  then show ?thesis
    using assms
    by (simp add: RunOnDevice_def RunOnDevice_traced_def extents_def init_outputs_def write_back_def
        Let_def ResizeLike_def VectorArrayMap_def setZero_def)
qed

lemma numeric_check_unknown:
  "RunOnDevice dbg (Fin \<circ> real) UNKNOWN (numeric_check sentinel sentinel sentinel) =
     (Some UnsupportedLayout,
      numeric_check \<lparr>dims = [2, 1, 1, 1], data = [Fin 0, Fin 1]\<rparr> \<lparr>dims = [1], data = [Fin 0]\<rparr>
        \<lparr>dims = [1], data = [Fin 0]\<rparr>)"
proof -
  have h: "ndim (INPUT (numeric_check sentinel sentinel sentinel)) = 4"
    "ndim (SCALE (numeric_check sentinel sentinel sentinel)) = 1"
    "dim32 (SCALE (numeric_check sentinel sentinel sentinel)) 0 =
     dim32 (INPUT (numeric_check sentinel sentinel sentinel)) 3"
    by (simp_all add: numeric_check_def ndim_def dim32_def)
  show ?thesis
    unfolding unknown_layout_state[OF h]
    by (simp add: numeric_check_def sentinel_def ResizeLike_def tsize_def dim32_def upt_2)
qed

text \<open>
  Claim C5, as stated, fails: with an unrecognized layout tag the run ends in
  \<open>UnsupportedLayout\<close>, but by then the outputs have been touched. The scale gradient, which
  held the sentinel \<open>[7]\<close>, holds \<open>[0]\<close>; the input gradient has been resized to two cells of
  whatever the allocator handed out (here \<open>[0, 1]\<close>), which is not the gradient \<open>[0, 0]\<close>.
\<close>

theorem unknown_layout_counterexample:
  "fst (RunOnDevice True (Fin \<circ> real) UNKNOWN (numeric_check sentinel sentinel sentinel)) = Some UnsupportedLayout \<and>
   data (SCALE_GRAD (numeric_check sentinel sentinel sentinel)) = [Fin 7] \<and>
   data (SCALE_GRAD (snd (RunOnDevice True (Fin \<circ> real) UNKNOWN (numeric_check sentinel sentinel sentinel)))) = [Fin 0] \<and>
   data (BIAS_GRAD (snd (RunOnDevice True (Fin \<circ> real) UNKNOWN (numeric_check sentinel sentinel sentinel)))) = [Fin 0] \<and>
   dims (INPUT_GRAD (numeric_check sentinel sentinel sentinel)) = [1] \<and>
   dims (INPUT_GRAD (snd (RunOnDevice True (Fin \<circ> real) UNKNOWN (numeric_check sentinel sentinel sentinel)))) = [2, 1, 1, 1] \<and>
   data (INPUT_GRAD (snd (RunOnDevice True (Fin \<circ> real) UNKNOWN (numeric_check sentinel sentinel sentinel)))) = [Fin 0, Fin 1]"
  unfolding numeric_check_unknown by (simp add: numeric_check_def sentinel_def)

text \<open>
  Claim C5, amended. When the rank and scale checks pass (the dimensions of the activation
  being read as \<open>(N, H, W, C)\<close>), a run with an unrecognized layout tag fails with
  \<open>UnsupportedLayout\<close> rather than defaulting to a layout, in a debug build or not. By then the
  three outputs have been resized, the input gradient to the shape of the activation and the
  other two to the shape of \<open>scale\<close>, and the scale and bias gradients are zero vectors of
  length \<open>C\<close>; no cell of the input gradient has been assigned and the inputs are untouched.
\<close>

theorem unknown_layout_fails:
  assumes "ndim (INPUT ws) = 4" and "ndim (SCALE ws) = 1"
    and "dim32 (SCALE ws) 0 = dim32 (INPUT ws) 3"
  shows "RunOnDevice dbg raw UNKNOWN ws =
           (Some UnsupportedLayout,
            ws\<lparr>INPUT_GRAD := ResizeLike raw (INPUT_GRAD ws) (INPUT ws),
               SCALE_GRAD := \<lparr>dims = dims (SCALE ws), data = replicate (dim32 (INPUT ws) 3) (Fin 0)\<rparr>,
               BIAS_GRAD := \<lparr>dims = dims (SCALE ws), data = replicate (dim32 (INPUT ws) 3) (Fin 0)\<rparr>\<rparr>)"
  using assms by (rule unknown_layout_state)

theorem unknown_layout_fails_witness:
  "ndim (INPUT (numeric_check sentinel sentinel sentinel)) = 4 \<and>
   RunOnDevice True (Fin \<circ> real) UNKNOWN (numeric_check sentinel sentinel sentinel) =
     (Some UnsupportedLayout,
      numeric_check \<lparr>dims = [2, 1, 1, 1], data = [Fin 0, Fin 1]\<rparr> \<lparr>dims = [1], data = [Fin 0]\<rparr>
        \<lparr>dims = [1], data = [Fin 0]\<rparr>)"
proof -
  have h: "ndim (INPUT (numeric_check sentinel sentinel sentinel)) = 4"
    "ndim (SCALE (numeric_check sentinel sentinel sentinel)) = 1"
    "dim32 (SCALE (numeric_check sentinel sentinel sentinel)) 0 =
     dim32 (INPUT (numeric_check sentinel sentinel sentinel)) 3"
    by (simp_all add: numeric_check_def ndim_def dim32_def)
  show ?thesis
    using unknown_layout_fails[OF h, of True "Fin \<circ> real"] h(1)
    by (simp add: numeric_check_def sentinel_def ResizeLike_def tsize_def dim32_def upt_2)
qed

subsection \<open>Roundings that lose something\<close>

lemma fl_third: "fl (1 / 3) = Fin (11184811 / 33554432)"
proof -
  have "expo \<bar>1 / 3 :: real\<bar> = - 2" by (rule expo_char) (simp_all add: power_int_minus)
  then show ?thesis by (simp add: fl_def rne_def power_int_minus)
qed

lemma fl_two_thirds: "fl (11184811 / 16777216) = Fin (11184811 / 16777216)"
proof -
  have "expo \<bar>11184811 / 16777216 :: real\<bar> = - 1" by (rule expo_char) (simp_all add: power_int_minus)
  then show ?thesis by (simp add: fl_def rne_def power_int_minus)
qed

lemma fl_16777217: "fl 16777217 = Fin 16777216"
proof -
  have "expo \<bar>16777217 :: real\<bar> = 24" by (rule expo_char) simp_all
  then show ?thesis by (simp add: fl_def rne_def)
qed

lemma fl_16777218: "fl 16777218 = Fin 16777218"
proof -
  have "expo \<bar>16777218 :: real\<bar> = 24" by (rule expo_char) simp_all
  then show ?thesis by (simp add: fl_def rne_def)
qed

lemma fl_2_128: "fl (2 ^ 128) = PInf"
proof -
  have "expo \<bar>2 ^ 128 :: real\<bar> = 128" by (rule expo_char) simp_all
  then show ?thesis by (simp add: fl_def rne_def)
qed

lemma three_samples_wf: "well_formed NCHW three_samples"
  unfolding three_samples_def by (rule well_formed_invocation[OF extents_4(1)]) (simp_all add: int32_ok_small)

lemma three_samples_extents: "extents NCHW (INPUT three_samples) = (3, 1, 1, 1)"
  by (simp add: three_samples_def)

lemma large_gradient_wf: "order \<noteq> UNKNOWN \<Longrightarrow> well_formed order large_gradient"
  by (simp add: well_formed_def extents_def dim32_def ndim_def tsize_def large_gradient_def int32_ok_small)

lemma large_gradient_extents: "extents order (INPUT large_gradient) = (2, 1, 1, 1)"
  by (simp add: extents_def dim32_def large_gradient_def)

subsection \<open>Reduction pass\<close>

text \<open>
  Claim C2, as stated, fails: the accumulators are binary32 sums, which round. With the two
  output gradients \<open>2^24\<close> and \<open>1\<close> of one channel the code leaves \<open>biasGrad = [16777216]\<close> in
  either layout, and the sum of the output gradients is \<open>16777217\<close>.
\<close>

theorem rounded_sum_counterexample:
  "well_formed NCHW large_gradient \<and> well_formed NHWC large_gradient \<and>
   data (OUTPUT_GRAD large_gradient) = [16777216, 1] \<and>
   exact_bias NCHW large_gradient 2 1 1 0 = 16777217 \<and>
   data (BIAS_GRAD (snd (RunOnDevice True (Fin \<circ> real) NCHW large_gradient))) = [Fin 16777216] \<and>
   data (BIAS_GRAD (snd (RunOnDevice True (Fin \<circ> real) NHWC large_gradient))) = [Fin 16777216]"
proof -
  have c: "(0::nat) < 1" by simp
  have d: "data (OUTPUT_GRAD large_gradient) = [16777216, 1]" "dims (OUTPUT_GRAD large_gradient) = [2, 1, 1, 1]"
    by (simp_all add: large_gradient_def)
  have b: "data (BIAS_GRAD (snd (RunOnDevice True (Fin \<circ> real) order large_gradient))) = [Fin 16777216]"
    if ord: "order \<noteq> UNKNOWN" for order
  proof -
    let ?ws' = "snd (RunOnDevice True (Fin \<circ> real) order large_gradient)"
    note wf = well_formed_runnable[OF large_gradient_wf[OF ord]]
    note ex = large_gradient_extents[of order]
    have "data (BIAS_GRAD ?ws') ! 0 = Fin 16777216"
      using Run_bias[OF wf ord ex c, of True "Fin \<circ> real"]
      by (simp add: accumulated_def block_positions_def all_positions_def upt_2 fsum_def bias_term_def
          elem_numeric d fl_16777217)
    moreover have "data (BIAS_GRAD ?ws') = [data (BIAS_GRAD ?ws') ! 0]"
      using Run_shapes(6)[OF wf ord ex, of True "Fin \<circ> real"] by (intro list1) simp
    ultimately show ?thesis by simp
  qed
  have "exact_bias NCHW large_gradient 2 1 1 0 = 16777217"
    by (simp add: exact_bias_def exact_sum_def all_positions_def upt_2 elem_numeric d)
  then show ?thesis
    using b[of NCHW] b[of NHWC] d(1) large_gradient_wf[of NCHW] large_gradient_wf[of NHWC] by simp
qed

text \<open>
  Claim C2, amended. For a well-formed invocation in either supported layout the run succeeds
  and, for every channel \<open>c\<close>, leaves in \<open>biasGrad[c]\<close> the binary32 sum of the
  \<open>outputGrad[n, c, h, w]\<close> and in \<open>scaleGrad[c]\<close> the binary32 sum of the
  \<open>(activation[n, c, h, w] - mean[c]) * invStd[c] * outputGrad[n, c, h, w]\<close>, every operation
  rounded, the terms added in the order of the layout's traversal: in NCHW the sum of each
  block \<open>(n, c)\<close> is formed first and added to the accumulator, in NHWC the terms are added one
  by one. Both accumulators are zero in the workspace from which the layout branch starts
  accumulating.
\<close>

theorem reduction_pass_sums:
  assumes "well_formed order ws" and "order \<noteq> UNKNOWN"
    and "extents order (INPUT ws) = (N, C, H, W)" and "c < C"
  shows "fst (RunOnDevice dbg raw order ws) = None \<and>
         data (BIAS_GRAD (init_outputs raw ws C)) = replicate C (Fin 0) \<and>
         data (SCALE_GRAD (init_outputs raw ws C)) = replicate C (Fin 0) \<and>
         data (BIAS_GRAD (snd (RunOnDevice dbg raw order ws))) ! c =
           accumulated order N H W (bias_term order ws c) \<and>
         data (SCALE_GRAD (snd (RunOnDevice dbg raw order ws))) ! c =
           accumulated order N H W (scale_term order ws c)"
proof -
  note wf = well_formed_runnable[OF assms(1)]
  have "ready (init_outputs raw ws C) N C H W" using wf assms(3) by (rule init_ready)
  then have "data (BIAS_GRAD (init_outputs raw ws C)) = replicate C (Fin 0)"
    "data (SCALE_GRAD (init_outputs raw ws C)) = replicate C (Fin 0)"
    by (simp_all add: ready_def)
  then show ?thesis
    using Run_ok[OF wf assms(2)] Run_bias[OF wf assms(2-4)] Run_scale[OF wf assms(2-4)] by simp
qed

theorem reduction_pass_sums_witness:
  "well_formed NCHW (sample_NCHW [1, 0, 2, 1]) \<and>
   extents NCHW (INPUT (sample_NCHW [1, 0, 2, 1])) = (1, 2, 1, 2) \<and>
   fst (RunOnDevice True (Fin \<circ> real) NCHW (sample_NCHW [1, 0, 2, 1])) = None \<and>
   data (BIAS_GRAD (snd (RunOnDevice True (Fin \<circ> real) NCHW (sample_NCHW [1, 0, 2, 1])))) ! 1 = Fin 3 \<and>
   data (SCALE_GRAD (snd (RunOnDevice True (Fin \<circ> real) NCHW (sample_NCHW [1, 0, 2, 1])))) ! 1 = Fin 2"
proof -
  have o: "NCHW \<noteq> UNKNOWN" and c: "(1::nat) < 2" by simp_all
  have e: "extents NCHW (OUTPUT_GRAD (sample_NCHW [1, 0, 2, 1])) = (1, 2, 1, 2)"
    by (simp add: sample_NCHW_def)
  have d: "data (INPUT (sample_NCHW [1, 0, 2, 1])) = [1, 1, 3, 4]"
    "data (OUTPUT_GRAD (sample_NCHW [1, 0, 2, 1])) = [1, 0, 2, 1]"
    "data (SAVED_MEAN (sample_NCHW [1, 0, 2, 1])) = [1, 3]"
    "data (SAVED_INV_VAR (sample_NCHW [1, 0, 2, 1])) = [1, 2]"
    by (simp_all add: sample_NCHW_def)
  show ?thesis
    using reduction_pass_sums[OF sample_NCHW_wf[of 1 0 2 1] o sample_NCHW_extents[of "[1, 0, 2, 1]"] c,
        where raw = "Fin \<circ> real" and dbg = True]
    by (simp add: sample_NCHW_wf sample_NCHW_extents elem_NCHW[OF e] elem_NCHW[OF sample_NCHW_extents]
        d accumulated_def block_positions_def upt_2 fsum_def bias_term_def scale_term_def centred_def fsub_def)
qed

subsection \<open>Propagation pass\<close>

lemma Run_dX:
  assumes wf: "runnable order ws" and ord: "order \<noteq> UNKNOWN"
    and ex: "extents order (INPUT ws) = (N, C, H, W)"
    and n: "n < N" and c: "c < C" and h: "h < H" and w: "w < W"
  shows "elem order (INPUT_GRAD (snd (RunOnDevice dbg raw order ws))) n c h w =
         propagated order ws N H W c n h w"
proof (cases order)
  case UNKNOWN
  then show ?thesis using ord by simp
next
  case NHWC
  show ?thesis
    unfolding NHWC Run_dX_NHWC[OF wf[unfolded NHWC] ex[unfolded NHWC] n c h w]
    by (simp add: propagated_def Let_def)
next
  case NCHW
  have o: "NCHW \<noteq> UNKNOWN" by simp
  show ?thesis
    unfolding NCHW Run_dX_NCHW[OF wf[unfolded NCHW] ex[unfolded NCHW] n c h w]
      Run_bias[OF wf[unfolded NCHW] o ex[unfolded NCHW] c]
      Run_scale[OF wf[unfolded NCHW] o ex[unfolded NCHW] c]
    by (simp add: propagated_def Let_def)
qed

text \<open>
  Claim C1, as stated, fails: the code evaluates the formula in binary32, and the result is
  not the formula's value. For three samples of one channel, with output gradients
  \<open>1, 0, 0\<close>, activations at the mean \<open>0\<close>, \<open>scale = invStd = 1\<close>, the formula gives
  \<open>1 / 3 * (1 * 3 - 1 - 0) = 2 / 3\<close> for the first element; the code leaves
  \<open>11184811 / 16777216\<close>, twice the rounded \<open>1 / 3\<close>.
\<close>

theorem rounded_formula_counterexample:
  "well_formed NCHW three_samples \<and>
   extents NCHW (INPUT three_samples) = (3, 1, 1, 1) \<and>
   formula NCHW three_samples 3 1 1 0 0 0 0 = 2 / 3 \<and>
   elem NCHW (INPUT_GRAD (snd (RunOnDevice True (Fin \<circ> real) NCHW three_samples))) 0 0 0 0 =
     Fin (11184811 / 16777216)"
proof -
  have o: "NCHW \<noteq> UNKNOWN" and i: "(0::nat) < 3" "(0::nat) < 1" by simp_all
  note wf = well_formed_runnable[OF three_samples_wf] and ex = three_samples_extents
  have e: "extents NCHW (OUTPUT_GRAD three_samples) = (3, 1, 1, 1)"
    by (simp add: three_samples_def)
  have d: "data (INPUT three_samples) = [0, 0, 0]" "data (OUTPUT_GRAD three_samples) = [1, 0, 0]"
    "data (SAVED_MEAN three_samples) = [0]" "data (SAVED_INV_VAR three_samples) = [1]"
    "data (SCALE three_samples) = [1]"
    by (simp_all add: three_samples_def)
  have "formula NCHW three_samples 3 1 1 0 0 0 0 = 2 / 3"
    by (simp add: formula_def exact_bias_def exact_scale_def exact_sum_def all_positions_def upt_3
        elem_NCHW[OF e] elem_NCHW[OF ex] d)
  moreover have "elem NCHW (INPUT_GRAD (snd (RunOnDevice True (Fin \<circ> real) NCHW three_samples))) 0 0 0 0 =
     Fin (11184811 / 16777216)"
    unfolding Run_dX[OF wf o ex i(1) i(2) i(2) i(2)]
    by (simp add: propagated_def accumulated_def block_positions_def upt_3 fsum_def bias_term_def
        scale_term_def centred_def channel_factor_def scaled_grad_def fsub_def
        elem_NCHW[OF e] elem_NCHW[OF ex] d fl_third fl_two_thirds)
  ultimately show ?thesis using three_samples_wf ex by simp
qed

text \<open>
  Claim C1, amended. For a well-formed rank-4 invocation in either supported layout and every
  element \<open>(n, c, h, w)\<close>, the input gradient the run leaves behind is the binary32 value of
  \<open>scale[c] * invStd[c] / (N * H * W) * (outputGrad[n, c, h, w] * N * H * W - b -
  t)\<close>, every operation rounded and taken from left to right. In NCHW \<open>b\<close> is \<open>biasGrad[c]\<close>
  and \<open>t\<close> is \<open>(activation[n, c, h, w] - mean[c]) * scaleGrad[c] * invStd[c]\<close>, with the
  accumulators of the reduction pass. In NHWC \<open>b\<close> is the binary32 sum of the output gradients
  of the channel and \<open>t\<close> is \<open>(activation[n, c, h, w] - mean[c]) * (invStd[c] * invStd[c]) * s\<close>,
  where \<open>s\<close> is the binary32 sum of \<open>outputGrad * (activation - mean[c])\<close> over the channel.
  The input gradient has the shape of the input, so every one of its elements is covered.
\<close>

theorem input_gradient_formula:
  assumes "well_formed order ws" and "order \<noteq> UNKNOWN"
    and "extents order (INPUT ws) = (N, C, H, W)"
    and "n < N" and "c < C" and "h < H" and "w < W"
  shows "elem order (INPUT_GRAD (snd (RunOnDevice dbg raw order ws))) n c h w =
           propagated order ws N H W c n h w \<and>
         data (BIAS_GRAD (snd (RunOnDevice dbg raw order ws))) ! c =
           accumulated order N H W (bias_term order ws c) \<and>
         data (SCALE_GRAD (snd (RunOnDevice dbg raw order ws))) ! c =
           accumulated order N H W (scale_term order ws c) \<and>
         dims (INPUT_GRAD (snd (RunOnDevice dbg raw order ws))) = dims (INPUT ws) \<and>
         length (data (INPUT_GRAD (snd (RunOnDevice dbg raw order ws)))) = N * C * H * W"
proof -
  note wf = well_formed_runnable[OF assms(1)]
  show ?thesis
    using Run_dX[OF wf assms(2-7)] Run_bias[OF wf assms(2,3,5)] Run_scale[OF wf assms(2,3,5)]
      Run_shapes(1)[OF wf assms(2,3)] Run_shapes(4)[OF wf assms(2,3)]
    by simp
qed

theorem input_gradient_formula_witness:
  "well_formed NCHW (sample_NCHW [1, 0, 2, 1]) \<and>
   extents NCHW (INPUT (sample_NCHW [1, 0, 2, 1])) = (1, 2, 1, 2) \<and>
   elem NCHW (INPUT_GRAD (snd (RunOnDevice True (Fin \<circ> real) NCHW (sample_NCHW [1, 0, 2, 1])))) 0 1 0 1 = Fin (- 5) \<and>
   length (data (INPUT_GRAD (snd (RunOnDevice True (Fin \<circ> real) NCHW (sample_NCHW [1, 0, 2, 1]))))) = 4"
proof -
  have o: "NCHW \<noteq> UNKNOWN" and i: "(0::nat) < 1" "(1::nat) < 2" by simp_all
  have e: "extents NCHW (OUTPUT_GRAD (sample_NCHW [1, 0, 2, 1])) = (1, 2, 1, 2)"
    by (simp add: sample_NCHW_def)
  have d: "data (INPUT (sample_NCHW [1, 0, 2, 1])) = [1, 1, 3, 4]"
    "data (OUTPUT_GRAD (sample_NCHW [1, 0, 2, 1])) = [1, 0, 2, 1]"
    "data (SAVED_MEAN (sample_NCHW [1, 0, 2, 1])) = [1, 3]"
    "data (SAVED_INV_VAR (sample_NCHW [1, 0, 2, 1])) = [1, 2]"
    "data (SCALE (sample_NCHW [1, 0, 2, 1])) = [2, 1]"
    by (simp_all add: sample_NCHW_def)
  show ?thesis
    using input_gradient_formula[OF sample_NCHW_wf[of 1 0 2 1] o sample_NCHW_extents[of "[1, 0, 2, 1]"]
        i(1) i(2) i(1) i(2), where raw = "Fin \<circ> real" and dbg = True]
    by (simp add: sample_NCHW_wf sample_NCHW_extents elem_NCHW[OF e] elem_NCHW[OF sample_NCHW_extents]
        d propagated_def accumulated_def block_positions_def upt_2 fsum_def bias_term_def scale_term_def
        centred_def channel_factor_def scaled_grad_def fsub_def)
qed

subsection \<open>Flat positions and logical indices\<close>

lemma split_index:
  fixes k A B :: nat
  assumes "k < A * B"
  obtains a b where "a < A" "b < B" "k = a * B + b"
proof -
  have B: "0 < B" using assms by (cases B) simp_all
  have "k div B < A" using assms by (simp add: less_mult_imp_div_less)
  moreover have "k mod B < B" using B by simp
  moreover have "k = k div B * B + k mod B" by simp
  ultimately show ?thesis by (rule that)
qed

lemma flat_NCHW:
  fixes k N C H W :: nat
  assumes "k < N * C * H * W"
  obtains n c h w where "n < N" "c < C" "h < H" "w < W" "k = (n * C + c) * (H * W) + (h * W + w)"
proof -
  have "k < (N * C) * (H * W)" using assms by (simp add: mult.assoc)
  then obtain j i where j: "j < N * C" and i: "i < H * W" and k: "k = j * (H * W) + i"
    by (rule split_index)
  from j obtain n c where "n < N" "c < C" "j = n * C + c" by (rule split_index)
  moreover from i obtain h w where "h < H" "w < W" "i = h * W + w" by (rule split_index)
  ultimately show ?thesis using k by (intro that) simp_all
qed

lemma flat_NHWC:
  fixes k N C H W :: nat
  assumes "k < N * C * H * W"
  obtains n c h w where "n < N" "c < C" "h < H" "w < W" "k = ((n * H + h) * W + w) * C + c"
proof -
  have "N * C * H * W = (N * H * W) * C" by (simp add: mult_ac)
  then have "k < (N * H * W) * C" using assms by (simp only:)
  then obtain j c where j: "j < N * H * W" and c: "c < C" and k: "k = j * C + c"
    by (rule split_index)
  from j obtain j' w where j': "j' < N * H" and w: "w < W" and jj: "j = j' * W + w"
    by (rule split_index)
  from j' obtain n h where "n < N" "h < H" "j' = n * H + h" by (rule split_index)
  then show ?thesis using c w k jj by (intro that) simp_all
qed

lemma index_bound_NCHW:
  fixes n c h w :: nat
  assumes "n < N" "c < C" "h < H" "w < W"
  shows "(n * C + c) * (H * W) + (h * W + w) < N * C * H * W"
  using idx_bound[OF idx_bound[OF assms(1,2)] idx_bound[OF assms(3,4)]] by (simp add: mult.assoc)

lemma index_bound_NHWC:
  fixes n c h w :: nat
  assumes "n < N" "c < C" "h < H" "w < W"
  shows "((n * H + h) * W + w) * C + c < N * C * H * W"
proof -
  have e: "N * H * W * C = N * C * H * W" by (simp add: mult_ac)
  show ?thesis
    using idx_bound[OF idx_bound[OF idx_bound[OF assms(1,3)] assms(4)] assms(2)] unfolding e .
qed

lemma elem_zero:
  assumes "extents order t = (N, C, H, W)" and "length (data t) = N * C * H * W"
    and "\<forall>x\<in>set (data t). x = (0::real)"
    and "n < N" "c < C" "h < H" "w < W"
  shows "elem order t n c h w = 0"
proof -
  have "data t ! k = 0" if "k < N * C * H * W" for k
    using that assms(2,3) by simp
  then show ?thesis
    using assms(1) index_bound_NCHW[OF assms(4-7)] index_bound_NHWC[OF assms(4-7)]
    by (simp add: elem_def)
qed

lemma wf_dY_length:
  assumes "runnable order ws" "extents order (INPUT ws) = (N, C, H, W)"
  shows "length (data (OUTPUT_GRAD ws)) = N * C * H * W"
proof -
  have "ndim (INPUT ws) = 4" "length (data (OUTPUT_GRAD ws)) = tsize (INPUT ws)"
    using assms by (simp_all add: runnable_def)
  then show ?thesis using tsize_extents[OF _ assms(2)] by simp
qed

lemma data_as_elem:
  assumes "order \<noteq> UNKNOWN" and "extents order t = (N, C, H, W)" and "k < N * C * H * W"
  obtains n c h w where "n < N" "c < C" "h < H" "w < W" "data t ! k = elem order t n c h w"
proof (cases order)
  case NCHW
  from assms(3) obtain n c h w where i: "n < N" "c < C" "h < H" "w < W"
    and k: "k = (n * C + c) * (H * W) + (h * W + w)" by (rule flat_NCHW)
  have "data t ! k = elem order t n c h w"
    using assms(2) k unfolding NCHW by (simp add: elem_NCHW)
  with i show ?thesis by (rule that)
next
  case NHWC
  from assms(3) obtain n c h w where i: "n < N" "c < C" "h < H" "w < W"
    and k: "k = ((n * H + h) * W + w) * C + c" by (rule flat_NHWC)
  have "data t ! k = elem order t n c h w"
    using assms(2) k unfolding NHWC by (simp add: elem_NHWC)
  with i show ?thesis by (rule that)
qed (use assms(1) in simp)


subsection \<open>Zero output gradient\<close>

lemma fmul_finite_left: "is_finite (fmul a b) \<Longrightarrow> is_finite a"
  by (cases a; cases b) (simp_all add: signed_inf_def split: if_splits)

lemma far_from_mean_wf: "order \<noteq> UNKNOWN \<Longrightarrow> well_formed order far_from_mean"
  by (simp add: well_formed_def extents_def dim32_def ndim_def tsize_def far_from_mean_def int32_ok_small)

lemma far_from_mean_extents: "extents order (INPUT far_from_mean) = (1, 1, 1, 1)"
  by (simp add: extents_def dim32_def far_from_mean_def)

lemma elem_single:
  assumes "dims t = [1, 1, 1, 1]"
  shows "elem order t 0 0 0 0 = data t ! 0"
  using assms by (simp add: elem_def extents_def dim32_def)

text \<open>
  Claim C7, as stated, fails: a zero output gradient does not cancel an overflow. With one
  element, activation \<open>2^127\<close> and saved mean \<open>-2^127\<close> (both binary32 values), the
  difference \<open>activation - mean\<close> overflows to infinity, and infinity times the zero output
  gradient is NaN: the scale gradient is NaN in either layout.
\<close>

theorem overflow_counterexample:
  "well_formed NCHW far_from_mean \<and> well_formed NHWC far_from_mean \<and>
   data (OUTPUT_GRAD far_from_mean) = [0] \<and>
   data (INPUT far_from_mean) = [2 ^ 127] \<and>
   data (SAVED_MEAN far_from_mean) = [- (2 ^ 127)] \<and>
   data (SCALE_GRAD (snd (RunOnDevice True (Fin \<circ> real) NCHW far_from_mean))) = [NaN] \<and>
   data (SCALE_GRAD (snd (RunOnDevice True (Fin \<circ> real) NHWC far_from_mean))) = [NaN]"
proof -
  have c: "(0::nat) < 1" by simp
  have d: "data (OUTPUT_GRAD far_from_mean) = [0]" "dims (OUTPUT_GRAD far_from_mean) = [1, 1, 1, 1]"
    "data (INPUT far_from_mean) = [2 ^ 127]" "dims (INPUT far_from_mean) = [1, 1, 1, 1]"
    "data (SAVED_MEAN far_from_mean) = [- (2 ^ 127)]" "data (SAVED_INV_VAR far_from_mean) = [1]"
    by (simp_all add: far_from_mean_def)
  have p: "fl 340282366920938463463374607431768211456 = PInf" using fl_2_128 by simp
  have s: "data (SCALE_GRAD (snd (RunOnDevice True (Fin \<circ> real) order far_from_mean))) = [NaN]"
    if ord: "order \<noteq> UNKNOWN" for order
  proof -
    let ?ws' = "snd (RunOnDevice True (Fin \<circ> real) order far_from_mean)"
    note wf = well_formed_runnable[OF far_from_mean_wf[OF ord]]
    note ex = far_from_mean_extents[of order]
    have "data (SCALE_GRAD ?ws') ! 0 = NaN"
      using Run_scale[OF wf ord ex c, of True "Fin \<circ> real"]
      by (simp add: accumulated_def block_positions_def all_positions_def fsum_def scale_term_def
          centred_def fsub_def elem_single d p signed_inf_def)
    moreover have "data (SCALE_GRAD ?ws') = [data (SCALE_GRAD ?ws') ! 0]"
      using Run_shapes(5)[OF wf ord ex, of True "Fin \<circ> real"] by (intro list1) simp
    ultimately show ?thesis by simp
  qed
  show ?thesis
    using s[of NCHW] s[of NHWC] d far_from_mean_wf[of NCHW] far_from_mean_wf[of NHWC] by simp
qed

text \<open>
  Claim C7, amended. If the output gradient is zero at every element and no intermediate
  value overflows (at every element the per-channel factor \<open>scale[c] * invStd[c] / (N * H * W)\<close>,
  the product \<open>(activation - mean[c]) * invStd[c]\<close> and the product
  \<open>(activation - mean[c]) * (invStd[c] * invStd[c])\<close> are finite), a run in either
  supported layout produces a bias gradient, a scale gradient and an input gradient that are
  zero everywhere.
\<close>

theorem zero_output_gradient:
  assumes "well_formed order ws" and "order \<noteq> UNKNOWN"
    and "extents order (INPUT ws) = (N, C, H, W)"
    and "\<forall>x\<in>set (data (OUTPUT_GRAD ws)). x = 0"
    and "\<forall>n<N. \<forall>c<C. \<forall>h<H. \<forall>w<W. overflow_free order ws N H W c n h w"
  shows "data (BIAS_GRAD (snd (RunOnDevice dbg raw order ws))) = replicate C (Fin 0) \<and>
         data (SCALE_GRAD (snd (RunOnDevice dbg raw order ws))) = replicate C (Fin 0) \<and>
         data (INPUT_GRAD (snd (RunOnDevice dbg raw order ws))) = replicate (N * C * H * W) (Fin 0)"
proof -
  let ?ws' = "snd (RunOnDevice dbg raw order ws)"
  note wf = well_formed_runnable[OF assms(1)] and ord = assms(2) and ex = assms(3)
  have exY: "extents order (OUTPUT_GRAD ws) = (N, C, H, W)" using wf_dY_extents[OF wf] ex by simp
  have z: "elem order (OUTPUT_GRAD ws) n c h w = 0" if "n < N" "c < C" "h < H" "w < W" for n c h w
    using exY wf_dY_length[OF wf ex] assms(4) that by (rule elem_zero)
  have i32: "int32_ok N C H W" using assms(1) ex by (simp add: well_formed_def)
  have fN: "is_finite (float_of_int N)" "is_finite (float_of_int H)" "is_finite (float_of_int W)"
    using i32 by (simp_all add: int32_ok_def float_of_int_finite)
  have of1: "is_finite (channel_factor ws N H W c)"
    and of2: "fmul (fmul (centred order ws c n h w) (Fin (data (SAVED_INV_VAR ws) ! c))) (Fin 0) = Fin 0"
    and of3: "fmul (fmul (centred order ws c n h w)
                   (fmul (Fin (data (SAVED_INV_VAR ws) ! c)) (Fin (data (SAVED_INV_VAR ws) ! c)))) (Fin 0) = Fin 0"
    and of4: "fmul (Fin 0) (centred order ws c n h w) = Fin 0"
    and of5: "fmul (centred order ws c n h w) (Fin 0) = Fin 0"
    if "n < N" "c < C" "h < H" "w < W" for n c h w
  proof -
    have o: "overflow_free order ws N H W c n h w" using assms(5) that by simp
    then show "is_finite (channel_factor ws N H W c)" by (simp add: overflow_free_def)
    from o show "fmul (fmul (centred order ws c n h w) (Fin (data (SAVED_INV_VAR ws) ! c))) (Fin 0) = Fin 0"
      by (intro fmul_finite_0) (simp add: overflow_free_def)
    from o show "fmul (fmul (centred order ws c n h w)
                   (fmul (Fin (data (SAVED_INV_VAR ws) ! c)) (Fin (data (SAVED_INV_VAR ws) ! c)))) (Fin 0) = Fin 0"
      by (intro fmul_finite_0) (simp add: overflow_free_def)
    from o have f: "is_finite (centred order ws c n h w)"
      unfolding overflow_free_def by (blast intro: fmul_finite_left)
    then show "fmul (Fin 0) (centred order ws c n h w) = Fin 0" by (rule fmul_0_finite)
    from f show "fmul (centred order ws c n h w) (Fin 0) = Fin 0" by (rule fmul_finite_0)
  qed
  have bt: "accumulated order' N H W (bias_term order ws c) = Fin 0"
    "row_total N H W (bias_term order ws c) = Fin 0" if "c < C" for c order'
    using that by (auto intro!: accumulated_zeros row_total_zeros simp: bias_term_def z)
  have st: "accumulated order' N H W (scale_term order ws c) = Fin 0" if "c < C" for c order'
    using that by (auto intro!: accumulated_zeros simp: scale_term_def z of2)
  have rt: "row_total N H W (\<lambda>n h w. fmul (bias_term order ws c n h w) (centred order ws c n h w)) = Fin 0"
    if "c < C" for c
    using that by (auto intro!: row_total_zeros simp: bias_term_def z of4)
  have sg: "scaled_grad order ws N H W c n h w = Fin 0" if "n < N" "c < C" "h < H" "w < W" for n c h w
    using that fN by (simp add: scaled_grad_def z fmul_0_finite)
  have b: "data (BIAS_GRAD ?ws') ! c = Fin 0" if "c < C" for c
    unfolding Run_bias[OF wf ord ex that] using that by (rule bt(1))
  have s: "data (SCALE_GRAD ?ws') ! c = Fin 0" if "c < C" for c
    unfolding Run_scale[OF wf ord ex that] using that by (rule st)
  have exX: "extents order (INPUT_GRAD ?ws') = (N, C, H, W)"
    using extents_dims[OF Run_shapes(1)[OF wf ord ex]] ex by simp
  have x: "data (INPUT_GRAD ?ws') ! k = Fin 0" if "k < N * C * H * W" for k
  proof -
    from ord exX that obtain n c h w where i: "n < N" "c < C" "h < H" "w < W"
      and k: "data (INPUT_GRAD ?ws') ! k = elem order (INPUT_GRAD ?ws') n c h w"
      by (rule data_as_elem)
    have "propagated order ws N H W c n h w = Fin 0"
    proof (cases "order = NCHW")
      case True
      show ?thesis
        using bt(1)[OF i(2), of NCHW] st[OF i(2), of NCHW] sg[OF i] of5[OF i] of1[OF i] True
        by (simp add: propagated_def Let_def fmul_finite_0)
    next
      case False
      show ?thesis
        using bt(2)[OF i(2)] rt[OF i(2)] sg[OF i] of3[OF i] of1[OF i] False
        by (simp add: propagated_def Let_def fmul_finite_0)
    qed
    then show ?thesis unfolding k Run_dX[OF wf ord ex i] .
  qed
  have "data (BIAS_GRAD ?ws') = replicate C (Fin 0)"
    using Run_shapes(6)[OF wf ord ex, of dbg raw] b by (intro nth_equalityI) simp_all
  moreover have "data (SCALE_GRAD ?ws') = replicate C (Fin 0)"
    using Run_shapes(5)[OF wf ord ex, of dbg raw] s by (intro nth_equalityI) simp_all
  moreover have "data (INPUT_GRAD ?ws') = replicate (N * C * H * W) (Fin 0)"
    using Run_shapes(4)[OF wf ord ex, of dbg raw] x by (intro nth_equalityI) simp_all
  ultimately show ?thesis by simp
qed

theorem zero_output_gradient_witness:
  "well_formed NCHW (sample_NCHW [0, 0, 0, 0]) \<and>
   overflow_free NCHW (sample_NCHW [0, 0, 0, 0]) 1 1 2 1 0 0 1 \<and>
   data (BIAS_GRAD (snd (RunOnDevice True (Fin \<circ> real) NCHW (sample_NCHW [0, 0, 0, 0])))) = [Fin 0, Fin 0] \<and>
   data (SCALE_GRAD (snd (RunOnDevice True (Fin \<circ> real) NCHW (sample_NCHW [0, 0, 0, 0])))) = [Fin 0, Fin 0] \<and>
   data (INPUT_GRAD (snd (RunOnDevice True (Fin \<circ> real) NCHW (sample_NCHW [0, 0, 0, 0])))) =
     [Fin 0, Fin 0, Fin 0, Fin 0]"
proof -
  have o: "NCHW \<noteq> UNKNOWN" by simp
  have z: "\<forall>x\<in>set (data (OUTPUT_GRAD (sample_NCHW [0, 0, 0, 0]))). x = 0"
    by (simp add: sample_NCHW_def)
  have r: "replicate 2 (Fin 0) = [Fin 0, Fin 0]" "replicate 4 (Fin 0) = [Fin 0, Fin 0, Fin 0, Fin 0]"
    by (simp_all add: numeral_eq_Suc)
  have d: "data (INPUT (sample_NCHW [0, 0, 0, 0])) = [1, 1, 3, 4]"
    "data (SAVED_MEAN (sample_NCHW [0, 0, 0, 0])) = [1, 3]"
    "data (SAVED_INV_VAR (sample_NCHW [0, 0, 0, 0])) = [1, 2]"
    "data (SCALE (sample_NCHW [0, 0, 0, 0])) = [2, 1]"
    by (simp_all add: sample_NCHW_def)
  have f: "overflow_free NCHW (sample_NCHW [0, 0, 0, 0]) 1 1 2 c 0 0 w" if "c < 2" "w < 2" for c w
    using that
    by (auto simp: less_2_cases_iff overflow_free_def channel_factor_def centred_def fsub_def
        elem_NCHW[OF sample_NCHW_extents] d)
  then have f': "\<forall>n<1. \<forall>c<2. \<forall>h<1. \<forall>w<2. overflow_free NCHW (sample_NCHW [0, 0, 0, 0]) 1 1 2 c n h w"
    by simp
  show ?thesis
    using zero_output_gradient[OF sample_NCHW_wf[of 0 0 0 0] o sample_NCHW_extents[of "[0, 0, 0, 0]"] z f',
        where raw = "Fin \<circ> real" and dbg = True] f[of 1 1]
    by (simp add: sample_NCHW_wf r)
qed

subsection \<open>Empty batch or spatial extent\<close>

lemma empty_height_wf: "well_formed NCHW empty_height"
  unfolding empty_height_def by (rule well_formed_invocation[OF extents_4(1)]) (simp_all add: int32_ok_small)

lemma empty_height_extents: "extents NCHW (INPUT empty_height) = (1, 1, 0, 1)"
  by (simp add: empty_height_def)

text \<open>
  Claim C10, as stated, fails in its last part. In NCHW order with \<open>N = 1\<close>, \<open>C = 1\<close>,
  \<open>H = 0\<close>, \<open>W = 1\<close> the run succeeds, but the loop over the \<open>N * C\<close> blocks still runs
  once over an empty block, and line 60 evaluates the coefficient of the scaling factor for it:
  the run performs one division, of \<open>scale[0] * invStd[0] = 2\<close> by \<open>N * H * W = 0\<close>, whose
  value is infinity.
\<close>

theorem empty_extent_counterexample:
  "well_formed NCHW empty_height \<and>
   extents NCHW (INPUT empty_height) = (1, 1, 0, 1) \<and>
   fst (RunOnDevice True (Fin \<circ> real) NCHW empty_height) = None \<and>
   divisions True (Fin \<circ> real) NCHW empty_height = [(Fin 2, Fin 0)] \<and>
   fdiv (Fin 2) (Fin 0) = PInf"
proof -
  have o: "NCHW \<noteq> UNKNOWN" by simp
  note wf = well_formed_runnable[OF empty_height_wf] and ex = empty_height_extents
  have d: "data (SCALE empty_height) = [2]" "data (SAVED_INV_VAR empty_height) = [1]"
    by (simp_all add: empty_height_def)
  have "divisions True (Fin \<circ> real) NCHW empty_height = [(Fin 2, Fin 0)]"
    unfolding Run_divisions[OF wf o ex] by (simp add: d)
  then show ?thesis
    using Run_ok[OF wf o, of True "Fin \<circ> real"] empty_height_wf ex by (simp add: signed_inf_def)
qed

text \<open>
  Claim C10, amended. For every well-formed rank-4 input with a recognized layout whose batch
  or spatial extent is empty (\<open>N = 0\<close> or \<open>H = 0\<close> or \<open>W = 0\<close>), the run succeeds: the bias
  and scale gradients are zero vectors of length \<open>C\<close> and the input gradient is an empty tensor
  of the input's shape. In NHWC order no division is performed (and none in NCHW order when
  \<open>N = 0\<close> or \<open>C = 0\<close>); in NCHW order the run performs one division by \<open>N * H * W = 0\<close>
  for each of the \<open>N * C\<close> empty blocks, of \<open>scale[c] * invStd[c]\<close> for the channel \<open>c\<close> of
  the block, and its value reaches no output.
\<close>

theorem empty_extent_run:
  assumes "well_formed order ws" and "order \<noteq> UNKNOWN"
    and "extents order (INPUT ws) = (N, C, H, W)"
    and "N = 0 \<or> H = 0 \<or> W = 0"
  shows "fst (RunOnDevice dbg raw order ws) = None \<and>
         data (BIAS_GRAD (snd (RunOnDevice dbg raw order ws))) = replicate C (Fin 0) \<and>
         data (SCALE_GRAD (snd (RunOnDevice dbg raw order ws))) = replicate C (Fin 0) \<and>
         dims (BIAS_GRAD (snd (RunOnDevice dbg raw order ws))) = [C] \<and>
         dims (SCALE_GRAD (snd (RunOnDevice dbg raw order ws))) = [C] \<and>
         data (INPUT_GRAD (snd (RunOnDevice dbg raw order ws))) = [] \<and>
         dims (INPUT_GRAD (snd (RunOnDevice dbg raw order ws))) = dims (INPUT ws) \<and>
         divisions dbg raw order ws =
           (if order = NCHW
            then map (\<lambda>nc. (fmul (Fin (data (SCALE ws) ! (nc mod C))) (Fin (data (SAVED_INV_VAR ws) ! (nc mod C))),
                            Fin 0)) [0..<N * C]
            else [])"
proof -
  let ?ws' = "snd (RunOnDevice dbg raw order ws)"
  note wf = well_formed_runnable[OF assms(1)] and ord = assms(2) and ex = assms(3)
  have z: "N * C * H * W = 0" "N * H * W = 0" using assms(4) by auto
  have e: "t n h w = Fin 0" if "n < N" "h < H" "w < W" for t :: "nat \<Rightarrow> nat \<Rightarrow> nat \<Rightarrow> f32" and n h w
    using assms(4) that by auto
  have b: "data (BIAS_GRAD ?ws') ! c = Fin 0" if "c < C" for c
    unfolding Run_bias[OF wf ord ex that] by (rule accumulated_zeros) (simp add: e)
  have s: "data (SCALE_GRAD ?ws') ! c = Fin 0" if "c < C" for c
    unfolding Run_scale[OF wf ord ex that] by (rule accumulated_zeros) (simp add: e)
  have "data (BIAS_GRAD ?ws') = replicate C (Fin 0)"
    using Run_shapes(6)[OF wf ord ex, of dbg raw] b by (intro nth_equalityI) simp_all
  moreover have "data (SCALE_GRAD ?ws') = replicate C (Fin 0)"
    using Run_shapes(5)[OF wf ord ex, of dbg raw] s by (intro nth_equalityI) simp_all
  moreover have "data (INPUT_GRAD ?ws') = []"
    using Run_shapes(4)[OF wf ord ex, of dbg raw] z(1) by simp
  moreover have "divisions dbg raw order ws =
           (if order = NCHW
            then map (\<lambda>nc. (fmul (Fin (data (SCALE ws) ! (nc mod C))) (Fin (data (SAVED_INV_VAR ws) ! (nc mod C))),
                            Fin 0)) [0..<N * C]
            else [])"
    unfolding Run_divisions[OF wf ord ex] z(2) by simp
  ultimately show ?thesis
    using Run_ok[OF wf ord, of dbg raw] Run_shapes(1,2,3)[OF wf ord ex, of dbg raw] by simp
qed

theorem empty_extent_run_witness:
  "well_formed NCHW empty_height \<and>
   fst (RunOnDevice True (Fin \<circ> real) NCHW empty_height) = None \<and>
   data (BIAS_GRAD (snd (RunOnDevice True (Fin \<circ> real) NCHW empty_height))) = [Fin 0] \<and>
   data (SCALE_GRAD (snd (RunOnDevice True (Fin \<circ> real) NCHW empty_height))) = [Fin 0] \<and>
   data (INPUT_GRAD (snd (RunOnDevice True (Fin \<circ> real) NCHW empty_height))) = [] \<and>
   dims (INPUT_GRAD (snd (RunOnDevice True (Fin \<circ> real) NCHW empty_height))) = [1, 1, 0, 1] \<and>
   length (divisions True (Fin \<circ> real) NCHW empty_height) = 1"
proof -
  have o: "NCHW \<noteq> UNKNOWN" and h: "(1::nat) = 0 \<or> (0::nat) = 0 \<or> (1::nat) = 0" by simp_all
  show ?thesis
    using empty_extent_run[OF empty_height_wf o empty_height_extents h, of True "Fin \<circ> real"] empty_height_wf
    by (simp add: empty_height_def)
qed

subsection \<open>Layout invariance of the reductions\<close>

lemma sum_list_product:
  fixes f :: "'a \<times> 'b \<Rightarrow> real"
  shows "sum_list (map f (List.product xs ys)) = sum_list (map (\<lambda>x. sum_list (map (\<lambda>y. f (x, y)) ys)) xs)"
  by (induction xs) (simp_all add: comp_def)

lemma in_all_positions: "(n, h, w) \<in> set (all_positions N H W) \<longleftrightarrow> n < N \<and> h < H \<and> w < W"
  by (auto simp: all_positions_def)

lemma is_integer_Fin:
  assumes "is_integer a"
  shows "Fin (the_real a) = a" and "the_real a \<in> \<int>"
proof -
  have f: "is_finite a" and i: "of_int \<lfloor>the_real a\<rfloor> = the_real a"
    using assms unfolding is_integer_def by (rule conjunct1, rule conjunct2)
  show "Fin (the_real a) = a" using f by (cases a) simp_all
  show "the_real a \<in> \<int>" using i by (metis Ints_of_int)
qed

lemma sum_list_abs_le:
  fixes f :: "'a \<Rightarrow> real"
  shows "\<bar>sum_list (map f xs)\<bar> \<le> sum_list (map (\<lambda>x. \<bar>f x\<bar>) xs)"
proof (induction xs)
  case Nil
  show ?case by simp
next
  case (Cons a xs)
  have "\<bar>f a + sum_list (map f xs)\<bar> \<le> \<bar>f a\<bar> + \<bar>sum_list (map f xs)\<bar>" by (rule abs_triangle_ineq)
  also have "\<dots> \<le> \<bar>f a\<bar> + sum_list (map (\<lambda>x. \<bar>f x\<bar>) xs)" using Cons.IH by simp
  finally show ?case by simp
qed

lemma sum_list_Ints:
  fixes f :: "'a \<Rightarrow> real"
  shows "\<forall>x\<in>set xs. f x \<in> \<int> \<Longrightarrow> sum_list (map f xs) \<in> \<int>"
  by (induction xs) simp_all

lemma sum_list_member_le:
  fixes f :: "'a \<Rightarrow> real"
  assumes "\<forall>x\<in>set xs. 0 \<le> f x" "x \<in> set xs"
  shows "f x \<le> sum_list (map f xs)"
  using assms
proof (induction xs)
  case Nil
  then show ?case by simp
next
  case (Cons y ys)
  have nn: "0 \<le> sum_list (map f ys)" using Cons.prems(1) by (intro sum_list_nonneg) auto
  show ?case
  proof (cases "x = y")
    case True
    then show ?thesis using nn by simp
  next
    case False
    then have "f x \<le> sum_list (map f ys)" using Cons by simp
    moreover have "0 \<le> f y" using Cons.prems(1) by simp
    ultimately show ?thesis by simp
  qed
qed

lemma map_abs_triple:
  fixes g :: "'a \<Rightarrow> 'b \<Rightarrow> 'c \<Rightarrow> real"
  shows "map abs (map (\<lambda>(n, h, w). g n h w) ps) = map (\<lambda>(n, h, w). \<bar>g n h w\<bar>) ps"
  by (induction ps) auto

lemma map_abs_pair:
  fixes g :: "'a \<Rightarrow> 'b \<Rightarrow> real"
  shows "map abs (map (\<lambda>(h, w). g h w) ps) = map (\<lambda>(h, w). \<bar>g h w\<bar>) ps"
  by (induction ps) auto

text \<open>When the terms of a channel are small integers, both traversals form the exact sum.\<close>

lemma accumulated_exact:
  assumes si: "small_integers N H W t"
  shows "accumulated order N H W t = Fin (exact_total N H W t)"
proof -
  let ?r = "\<lambda>n h w. the_real (t n h w)"
  have int: "is_integer (t n h w)" if "n < N" "h < H" "w < W" for n h w
  proof -
    have "(n, h, w) \<in> set (all_positions N H W)" using that by (simp add: in_all_positions)
    then show ?thesis using si by (auto simp: small_integers_def list_all_iff)
  qed
  have fin: "Fin (?r n h w) = t n h w" and ints: "?r n h w \<in> \<int>" if "n < N" "h < H" "w < W" for n h w
    using is_integer_Fin[OF int[OF that]] by simp_all
  have bound: "sum_list (map (\<lambda>(n, h, w). \<bar>?r n h w\<bar>) (all_positions N H W)) \<le> 2 ^ 24"
    using si by (simp add: small_integers_def)
  show ?thesis
  proof (cases "order = NCHW")
    case False
    have e1: "map (\<lambda>(n, h, w). t n h w) (all_positions N H W) =
          map Fin (map (\<lambda>(n, h, w). ?r n h w) (all_positions N H W))"
      unfolding map_map by (rule map_cong[OF refl]) (auto simp: in_all_positions fin)
    have e2: "foldl fadd (Fin 0) (map Fin (map (\<lambda>(n, h, w). ?r n h w) (all_positions N H W))) =
          Fin (0 + sum_list (map (\<lambda>(n, h, w). ?r n h w) (all_positions N H W)))"
    proof (rule foldl_fadd_ints)
      show "\<forall>x\<in>set (map (\<lambda>(n, h, w). ?r n h w) (all_positions N H W)). x \<in> \<int>"
        by (auto simp: in_all_positions ints)
      show "(0::real) \<in> \<int>" by simp
      show "\<bar>0::real\<bar> + sum_list (map abs (map (\<lambda>(n, h, w). ?r n h w) (all_positions N H W))) \<le> 2 ^ 24"
        unfolding map_abs_triple using bound by simp
    qed
    have "accumulated order N H W t = foldl fadd (Fin 0) (map (\<lambda>(n, h, w). t n h w) (all_positions N H W))"
      using False by (simp add: accumulated_def)
    also have "\<dots> = foldl fadd (Fin 0) (map Fin (map (\<lambda>(n, h, w). ?r n h w) (all_positions N H W)))"
      by (simp only: e1)
    also have "\<dots> = Fin (0 + sum_list (map (\<lambda>(n, h, w). ?r n h w) (all_positions N H W)))"
      by (rule e2)
    also have "\<dots> = Fin (exact_total N H W t)" by (simp add: exact_total_def)
    finally show ?thesis .
  next
    case True
    let ?blk = "\<lambda>n. sum_list (map (\<lambda>(h, w). ?r n h w) (block_positions H W))"
    let ?ablk = "\<lambda>n. sum_list (map (\<lambda>(h, w). \<bar>?r n h w\<bar>) (block_positions H W))"
    have tot: "sum_list (map (\<lambda>(n, h, w). ?r n h w) (all_positions N H W)) = sum_list (map ?blk [0..<N])"
      unfolding all_positions_def block_positions_def sum_list_product by simp
    have atot: "sum_list (map (\<lambda>(n, h, w). \<bar>?r n h w\<bar>) (all_positions N H W)) = sum_list (map ?ablk [0..<N])"
      unfolding all_positions_def block_positions_def sum_list_product by simp
    have ab: "\<bar>?blk n\<bar> \<le> ?ablk n" for n
    proof -
      have "\<bar>sum_list (map (\<lambda>p. case p of (h, w) \<Rightarrow> ?r n h w) (block_positions H W))\<bar> \<le>
            sum_list (map (\<lambda>p. \<bar>case p of (h, w) \<Rightarrow> ?r n h w\<bar>) (block_positions H W))"
        by (rule sum_list_abs_le)
      then show ?thesis
        unfolding map_abs_pair[of "?r n", symmetric] by (simp only: map_map comp_def)
    qed
    have nn: "0 \<le> ?ablk n" for n by (intro sum_list_nonneg) auto
    have blk_le: "?ablk n \<le> 2 ^ 24" if "n < N" for n
    proof -
      have "?ablk n \<le> sum_list (map ?ablk [0..<N])"
        using that nn by (intro sum_list_member_le) simp_all
      then show ?thesis using bound unfolding atot by simp
    qed
    have blk: "fsum (map (\<lambda>(h, w). t n h w) (block_positions H W)) = Fin (?blk n)" if n: "n < N" for n
    proof -
      have b1: "map (\<lambda>(h, w). t n h w) (block_positions H W) =
            map Fin (map (\<lambda>(h, w). ?r n h w) (block_positions H W))"
        unfolding map_map by (rule map_cong[OF refl]) (auto simp: block_positions_def fin n)
      have b2: "fsum (map Fin (map (\<lambda>(h, w). ?r n h w) (block_positions H W))) = Fin (?blk n)"
      proof (rule fsum_ints)
        show "\<forall>x\<in>set (map (\<lambda>(h, w). ?r n h w) (block_positions H W)). x \<in> \<int>"
          by (auto simp: block_positions_def ints n)
        show "sum_list (map abs (map (\<lambda>(h, w). ?r n h w) (block_positions H W))) \<le> 2 ^ 24"
          unfolding map_abs_pair using blk_le[OF n] .
      qed
      show ?thesis unfolding b1 by (rule b2)
    qed
    have e1: "map (\<lambda>n. fsum (map (\<lambda>(h, w). t n h w) (block_positions H W))) [0..<N] = map Fin (map ?blk [0..<N])"
      unfolding map_map by (rule map_cong[OF refl]) (simp add: blk)
    have e2: "foldl fadd (Fin 0) (map Fin (map ?blk [0..<N])) = Fin (0 + sum_list (map ?blk [0..<N]))"
    proof (rule foldl_fadd_ints)
      show "\<forall>x\<in>set (map ?blk [0..<N]). x \<in> \<int>"
        by (auto intro!: sum_list_Ints simp: block_positions_def ints)
      show "(0::real) \<in> \<int>" by simp
      have "sum_list (map abs (map ?blk [0..<N])) \<le> sum_list (map ?ablk [0..<N])"
        unfolding map_map comp_def by (intro sum_list_mono) (simp add: ab)
      then show "\<bar>0::real\<bar> + sum_list (map abs (map ?blk [0..<N])) \<le> 2 ^ 24"
        using bound unfolding atot by simp
    qed
    have "accumulated order N H W t =
        foldl fadd (Fin 0) (map (\<lambda>n. fsum (map (\<lambda>(h, w). t n h w) (block_positions H W))) [0..<N])"
      using True by (simp add: accumulated_def)
    also have "\<dots> = foldl fadd (Fin 0) (map Fin (map ?blk [0..<N]))" by (simp only: e1)
    also have "\<dots> = Fin (0 + sum_list (map ?blk [0..<N]))" by (rule e2)
    also have "\<dots> = Fin (exact_total N H W t)" unfolding exact_total_def tot by simp
    finally show ?thesis .
  qed
qed

lemma small_integers_cong:
  assumes "\<forall>n<N. \<forall>h<H. \<forall>w<W. t n h w = t' n h w"
  shows "small_integers N H W t = small_integers N H W t'"
    and "exact_total N H W t = exact_total N H W t'"
proof -
  have m: "map (\<lambda>(n, h, w). g (t n h w)) (all_positions N H W) =
           map (\<lambda>(n, h, w). g (t' n h w)) (all_positions N H W)" for g :: "f32 \<Rightarrow> real"
    by (rule map_cong[OF refl]) (auto simp: in_all_positions assms)
  have l: "list_all (\<lambda>(n, h, w). is_integer (t n h w)) (all_positions N H W) =
           list_all (\<lambda>(n, h, w). is_integer (t' n h w)) (all_positions N H W)"
    unfolding list_all_iff by (auto simp: in_all_positions assms)
  show "small_integers N H W t = small_integers N H W t'"
    unfolding small_integers_def l m[of "\<lambda>a. \<bar>the_real a\<bar>"] by (rule refl)
  show "exact_total N H W t = exact_total N H W t'"
    unfolding exact_total_def m[of the_real] by (rule refl)
qed

lemma two_blocks_wf: "order \<noteq> UNKNOWN \<Longrightarrow> well_formed order (two_blocks order)"
  by (cases order)
    (simp_all add: well_formed_def extents_def dim32_def ndim_def tsize_def two_blocks_def int32_ok_small)

lemma two_blocks_extents: "order \<noteq> UNKNOWN \<Longrightarrow> extents order (INPUT (two_blocks order)) = (2, 1, 2, 1)"
  by (cases order) (simp_all add: two_blocks_def)

lemma two_small_blocks_wf: "order \<noteq> UNKNOWN \<Longrightarrow> well_formed order (two_small_blocks order)"
  by (cases order)
    (simp_all add: well_formed_def extents_def dim32_def ndim_def tsize_def two_small_blocks_def int32_ok_small)

lemma two_small_blocks_extents:
  "order \<noteq> UNKNOWN \<Longrightarrow> extents order (INPUT (two_small_blocks order)) = (2, 1, 2, 1)"
  by (cases order) (simp_all add: two_small_blocks_def)

text \<open>With one channel and \<open>W = 1\<close>, element \<open>(n, 0, h, 0)\<close> is cell \<open>2 * n + h\<close> in both
  layouts.\<close>

lemma elem_two_blocks:
  assumes "order \<noteq> UNKNOWN" "dims t = (if order = NCHW then [2, 1, 2, 1] else [2, 2, 1, 1])"
  shows "elem order t n 0 h 0 = data t ! (n * 2 + h)"
  using assms by (cases order) (simp_all add: elem_def extents_def dim32_def)

text \<open>
  Claim C6, as stated, fails: the two layouts add the same terms in different orders, and
  binary32 addition is not associative. For one channel with the output gradients
  \<open>2^24, 0\<close> in the first sample and \<open>1, 1\<close> in the second (centred activations \<open>1\<close>,
  \<open>invStd = 1\<close>), the NCHW run adds \<open>2^24 + 0\<close> and \<open>1 + 1\<close> and leaves
  \<open>biasGrad = scaleGrad = [16777218]\<close>; the NHWC run adds the four terms one by one and
  leaves \<open>[16777216]\<close>.
\<close>

theorem layout_order_counterexample:
  "well_formed NCHW (two_blocks NCHW) \<and> well_formed NHWC (two_blocks NHWC) \<and>
   extents NCHW (INPUT (two_blocks NCHW)) = extents NHWC (INPUT (two_blocks NHWC)) \<and>
   elem NCHW (OUTPUT_GRAD (two_blocks NCHW)) 0 0 0 0 = elem NHWC (OUTPUT_GRAD (two_blocks NHWC)) 0 0 0 0 \<and>
   elem NCHW (OUTPUT_GRAD (two_blocks NCHW)) 0 0 1 0 = elem NHWC (OUTPUT_GRAD (two_blocks NHWC)) 0 0 1 0 \<and>
   elem NCHW (OUTPUT_GRAD (two_blocks NCHW)) 1 0 0 0 = elem NHWC (OUTPUT_GRAD (two_blocks NHWC)) 1 0 0 0 \<and>
   elem NCHW (OUTPUT_GRAD (two_blocks NCHW)) 1 0 1 0 = elem NHWC (OUTPUT_GRAD (two_blocks NHWC)) 1 0 1 0 \<and>
   data (INPUT (two_blocks NCHW)) = data (INPUT (two_blocks NHWC)) \<and>
   data (BIAS_GRAD (snd (RunOnDevice True (Fin \<circ> real) NCHW (two_blocks NCHW)))) = [Fin 16777218] \<and>
   data (BIAS_GRAD (snd (RunOnDevice True (Fin \<circ> real) NHWC (two_blocks NHWC)))) = [Fin 16777216] \<and>
   data (SCALE_GRAD (snd (RunOnDevice True (Fin \<circ> real) NCHW (two_blocks NCHW)))) = [Fin 16777218] \<and>
   data (SCALE_GRAD (snd (RunOnDevice True (Fin \<circ> real) NHWC (two_blocks NHWC)))) = [Fin 16777216]"
proof -
  have c: "(0::nat) < 1" by simp
  have o: "NCHW \<noteq> UNKNOWN" "NHWC \<noteq> UNKNOWN" by simp_all
  have d: "data (OUTPUT_GRAD (two_blocks order)) = [16777216, 0, 1, 1]"
    "data (INPUT (two_blocks order)) = [1, 1, 1, 1]"
    "data (SAVED_MEAN (two_blocks order)) = [0]" "data (SAVED_INV_VAR (two_blocks order)) = [1]"
    "dims (OUTPUT_GRAD (two_blocks order)) = (if order = NCHW then [2, 1, 2, 1] else [2, 2, 1, 1])"
    "dims (INPUT (two_blocks order)) = (if order = NCHW then [2, 1, 2, 1] else [2, 2, 1, 1])"
    for order
    by (simp_all add: two_blocks_def)
  note ev = accumulated_def block_positions_def all_positions_def upt_2 fsum_def bias_term_def
    scale_term_def centred_def fsub_def fl_16777217 fl_16777218
  have el: "elem order (OUTPUT_GRAD (two_blocks order)) n 0 h 0 = [16777216, 0, 1, 1] ! (n * 2 + h)"
    "elem order (INPUT (two_blocks order)) n 0 h 0 = [1, 1, 1, 1] ! (n * 2 + h)"
    if "order \<noteq> UNKNOWN" for order n h
    using elem_two_blocks[OF that d(5)] elem_two_blocks[OF that d(6)] by (simp_all add: d)
  have b1: "data (BIAS_GRAD (snd (RunOnDevice True (Fin \<circ> real) NCHW (two_blocks NCHW)))) ! 0 = Fin 16777218"
    unfolding Run_bias[OF well_formed_runnable[OF two_blocks_wf[OF o(1)]] o(1) two_blocks_extents[OF o(1)] c]
    by (simp add: ev el d)
  have b2: "data (BIAS_GRAD (snd (RunOnDevice True (Fin \<circ> real) NHWC (two_blocks NHWC)))) ! 0 = Fin 16777216"
    unfolding Run_bias[OF well_formed_runnable[OF two_blocks_wf[OF o(2)]] o(2) two_blocks_extents[OF o(2)] c]
    by (simp add: ev el d)
  have s1: "data (SCALE_GRAD (snd (RunOnDevice True (Fin \<circ> real) NCHW (two_blocks NCHW)))) ! 0 = Fin 16777218"
    unfolding Run_scale[OF well_formed_runnable[OF two_blocks_wf[OF o(1)]] o(1) two_blocks_extents[OF o(1)] c]
    by (simp add: ev el d)
  have s2: "data (SCALE_GRAD (snd (RunOnDevice True (Fin \<circ> real) NHWC (two_blocks NHWC)))) ! 0 = Fin 16777216"
    unfolding Run_scale[OF well_formed_runnable[OF two_blocks_wf[OF o(2)]] o(2) two_blocks_extents[OF o(2)] c]
    by (simp add: ev el d)
  have l: "data (BIAS_GRAD (snd (RunOnDevice True (Fin \<circ> real) order (two_blocks order)))) =
        [data (BIAS_GRAD (snd (RunOnDevice True (Fin \<circ> real) order (two_blocks order)))) ! 0]"
    "data (SCALE_GRAD (snd (RunOnDevice True (Fin \<circ> real) order (two_blocks order)))) =
        [data (SCALE_GRAD (snd (RunOnDevice True (Fin \<circ> real) order (two_blocks order)))) ! 0]"
    if ord: "order \<noteq> UNKNOWN" for order
    using Run_shapes(5,6)[OF well_formed_runnable[OF two_blocks_wf[OF ord]] ord two_blocks_extents[OF ord],
        of True "Fin \<circ> real"]
    by (auto intro: list1)
  show ?thesis
    using l[OF o(1)] l[OF o(2)] b1 b2 s1 s2 two_blocks_wf[OF o(1)] two_blocks_wf[OF o(2)]
      two_blocks_extents[OF o(1)] two_blocks_extents[OF o(2)]
    by (simp add: el[OF o(1)] el[OF o(2)] d)
qed

text \<open>
  Claim C6, amended. Let the same logical activation and output gradient be given once in
  channel-major (NCHW) and once in channel-minor (NHWC) layout, with the same saved statistics,
  and let no sum round: for every channel the output gradients, and the products
  \<open>(activation - mean[c]) * invStd[c] * outputGrad\<close> as the code computes them, are integers
  whose magnitudes add up to at most \<open>2^24\<close>. Then the two runs leave the same bias gradient
  and the same scale gradient, channel by channel, and so agree on the sum over channels of
  each.
\<close>

theorem layout_invariant_sums:
  assumes "well_formed NCHW ws1" and "well_formed NHWC ws2"
    and "extents NCHW (INPUT ws1) = (N, C, H, W)" and "extents NHWC (INPUT ws2) = (N, C, H, W)"
    and "\<forall>n<N. \<forall>c<C. \<forall>h<H. \<forall>w<W.
           elem NCHW (INPUT ws1) n c h w = elem NHWC (INPUT ws2) n c h w"
    and "\<forall>n<N. \<forall>c<C. \<forall>h<H. \<forall>w<W.
           elem NCHW (OUTPUT_GRAD ws1) n c h w = elem NHWC (OUTPUT_GRAD ws2) n c h w"
    and "data (SAVED_MEAN ws1) = data (SAVED_MEAN ws2)"
    and "data (SAVED_INV_VAR ws1) = data (SAVED_INV_VAR ws2)"
    and "\<forall>c<C. small_integers N H W (bias_term NCHW ws1 c) \<and>
                small_integers N H W (scale_term NCHW ws1 c)"
  shows "data (SCALE_GRAD (snd (RunOnDevice dbg raw NCHW ws1))) =
           data (SCALE_GRAD (snd (RunOnDevice dbg raw NHWC ws2))) \<and>
         data (BIAS_GRAD (snd (RunOnDevice dbg raw NCHW ws1))) =
           data (BIAS_GRAD (snd (RunOnDevice dbg raw NHWC ws2))) \<and>
         fsum (data (SCALE_GRAD (snd (RunOnDevice dbg raw NCHW ws1)))) =
           fsum (data (SCALE_GRAD (snd (RunOnDevice dbg raw NHWC ws2)))) \<and>
         fsum (data (BIAS_GRAD (snd (RunOnDevice dbg raw NCHW ws1)))) =
           fsum (data (BIAS_GRAD (snd (RunOnDevice dbg raw NHWC ws2))))"
proof -
  have o: "NCHW \<noteq> UNKNOWN" "NHWC \<noteq> UNKNOWN" by simp_all
  note wf1 = well_formed_runnable[OF assms(1)] and wf2 = well_formed_runnable[OF assms(2)]
    and ex1 = assms(3) and ex2 = assms(4)
  have bt: "\<forall>n<N. \<forall>h<H. \<forall>w<W. bias_term NCHW ws1 c n h w = bias_term NHWC ws2 c n h w" if "c < C" for c
    using assms(6) that by (simp add: bias_term_def)
  have st: "\<forall>n<N. \<forall>h<H. \<forall>w<W. scale_term NCHW ws1 c n h w = scale_term NHWC ws2 c n h w" if "c < C" for c
    using assms(5,6) that by (simp add: scale_term_def centred_def assms(7,8))
  have b: "data (BIAS_GRAD (snd (RunOnDevice dbg raw NCHW ws1))) ! c =
           data (BIAS_GRAD (snd (RunOnDevice dbg raw NHWC ws2))) ! c" if c: "c < C" for c
  proof -
    have s1: "small_integers N H W (bias_term NCHW ws1 c)" using assms(9) c by simp
    then have s2: "small_integers N H W (bias_term NHWC ws2 c)"
      unfolding small_integers_cong(1)[OF bt[OF c]] .
    show ?thesis
      unfolding Run_bias[OF wf1 o(1) ex1 c] Run_bias[OF wf2 o(2) ex2 c]
        accumulated_exact[OF s1] accumulated_exact[OF s2] small_integers_cong(2)[OF bt[OF c]]
      by (rule refl)
  qed
  have s: "data (SCALE_GRAD (snd (RunOnDevice dbg raw NCHW ws1))) ! c =
           data (SCALE_GRAD (snd (RunOnDevice dbg raw NHWC ws2))) ! c" if c: "c < C" for c
  proof -
    have s1: "small_integers N H W (scale_term NCHW ws1 c)" using assms(9) c by simp
    then have s2: "small_integers N H W (scale_term NHWC ws2 c)"
      unfolding small_integers_cong(1)[OF st[OF c]] .
    show ?thesis
      unfolding Run_scale[OF wf1 o(1) ex1 c] Run_scale[OF wf2 o(2) ex2 c]
        accumulated_exact[OF s1] accumulated_exact[OF s2] small_integers_cong(2)[OF st[OF c]]
      by (rule refl)
  qed
  have "data (BIAS_GRAD (snd (RunOnDevice dbg raw NCHW ws1))) =
        data (BIAS_GRAD (snd (RunOnDevice dbg raw NHWC ws2)))"
    using Run_shapes(6)[OF wf1 o(1) ex1, of dbg raw] Run_shapes(6)[OF wf2 o(2) ex2, of dbg raw] b
    by (intro nth_equalityI) simp_all
  moreover have "data (SCALE_GRAD (snd (RunOnDevice dbg raw NCHW ws1))) =
        data (SCALE_GRAD (snd (RunOnDevice dbg raw NHWC ws2)))"
    using Run_shapes(5)[OF wf1 o(1) ex1, of dbg raw] Run_shapes(5)[OF wf2 o(2) ex2, of dbg raw] s
    by (intro nth_equalityI) simp_all
  ultimately show ?thesis by simp
qed

theorem layout_invariant_sums_witness:
  "well_formed NCHW (two_small_blocks NCHW) \<and> well_formed NHWC (two_small_blocks NHWC) \<and>
   data (OUTPUT_GRAD (two_small_blocks NCHW)) = [1, 2, 3, 4] \<and>
   data (SCALE_GRAD (snd (RunOnDevice True (Fin \<circ> real) NCHW (two_small_blocks NCHW)))) =
     data (SCALE_GRAD (snd (RunOnDevice True (Fin \<circ> real) NHWC (two_small_blocks NHWC)))) \<and>
   data (BIAS_GRAD (snd (RunOnDevice True (Fin \<circ> real) NCHW (two_small_blocks NCHW)))) =
     data (BIAS_GRAD (snd (RunOnDevice True (Fin \<circ> real) NHWC (two_small_blocks NHWC)))) \<and>
   fsum (data (SCALE_GRAD (snd (RunOnDevice True (Fin \<circ> real) NCHW (two_small_blocks NCHW))))) =
     fsum (data (SCALE_GRAD (snd (RunOnDevice True (Fin \<circ> real) NHWC (two_small_blocks NHWC))))) \<and>
   fsum (data (BIAS_GRAD (snd (RunOnDevice True (Fin \<circ> real) NCHW (two_small_blocks NCHW))))) =
     fsum (data (BIAS_GRAD (snd (RunOnDevice True (Fin \<circ> real) NHWC (two_small_blocks NHWC)))))"
proof -
  let ?a = "two_small_blocks NCHW" and ?b = "two_small_blocks NHWC"
  have o: "NCHW \<noteq> UNKNOWN" "NHWC \<noteq> UNKNOWN" by simp_all
  have d: "data (OUTPUT_GRAD (two_small_blocks order)) = [1, 2, 3, 4]"
    "data (INPUT (two_small_blocks order)) = [1, 1, 1, 1]"
    "data (SAVED_MEAN (two_small_blocks order)) = [0]" "data (SAVED_INV_VAR (two_small_blocks order)) = [1]"
    "dims (OUTPUT_GRAD (two_small_blocks order)) = (if order = NCHW then [2, 1, 2, 1] else [2, 2, 1, 1])"
    "dims (INPUT (two_small_blocks order)) = (if order = NCHW then [2, 1, 2, 1] else [2, 2, 1, 1])"
    for order
    by (simp_all add: two_small_blocks_def)
  have el: "elem order (OUTPUT_GRAD (two_small_blocks order)) n 0 h 0 = [1, 2, 3, 4] ! (n * 2 + h)"
    "elem order (INPUT (two_small_blocks order)) n 0 h 0 = [1, 1, 1, 1] ! (n * 2 + h)"
    if "order \<noteq> UNKNOWN" for order n h
    using elem_two_blocks[OF that d(5)] elem_two_blocks[OF that d(6)] by (simp_all add: d)
  have x: "\<forall>n<2. \<forall>c<1. \<forall>h<2. \<forall>w<1. elem NCHW (INPUT ?a) n c h w = elem NHWC (INPUT ?b) n c h w"
    by (simp add: el[OF o(1)] el[OF o(2)])
  have y: "\<forall>n<2. \<forall>c<1. \<forall>h<2. \<forall>w<1.
      elem NCHW (OUTPUT_GRAD ?a) n c h w = elem NHWC (OUTPUT_GRAD ?b) n c h w"
    by (simp add: el[OF o(1)] el[OF o(2)])
  have m: "data (SAVED_MEAN ?a) = data (SAVED_MEAN ?b)" "data (SAVED_INV_VAR ?a) = data (SAVED_INV_VAR ?b)"
    by (simp_all add: d)
  have si: "\<forall>c<1. small_integers 2 2 1 (bias_term NCHW ?a c) \<and> small_integers 2 2 1 (scale_term NCHW ?a c)"
    by (simp add: small_integers_def is_integer_def all_positions_def upt_2 bias_term_def scale_term_def
        centred_def fsub_def el[OF o(1)] d)
  show ?thesis
    using layout_invariant_sums[OF two_small_blocks_wf[OF o(1)] two_small_blocks_wf[OF o(2)]
        two_small_blocks_extents[OF o(1)] two_small_blocks_extents[OF o(2)] x y m si,
        where raw = "Fin \<circ> real" and dbg = True]
      two_small_blocks_wf[OF o(1)] two_small_blocks_wf[OF o(2)]
    by (simp add: d)
qed

end
